theory Spec2Isabelle
  imports Main "HOL-Library.Word" "HOL-Library.Signed_Division"
begin

section \<open>The executor's Job (api/src/executor/job.js)\<close>

text \<open>
  A shallow embedding of the class \<open>Job\<close>: its constructor, \<open>shuffle_ids\<close>, \<open>prime\<close>,
  \<open>safe_call\<close>, \<open>execute\<close>, \<open>run_in_parallel\<close>, \<open>run_in_band\<close> and \<open>evaluate\<close>.
  Everything the methods do beyond returning a value is explicit: the job and the
  module-level counters are passed in and returned, a \<open>throw\<close> or a rejected promise is
  the \<open>Inl\<close> of a sum, the child processes and the filesystem are parameters that
  stand for the environment, and the calls a method makes are recorded in a trace.
\<close>

subsection \<open>JavaScript values\<close>

text \<open>
  A string is the sequence of its UTF-16 code units, which is what \<open>length\<close>,
  \<open>slice\<close>, \<open>===\<close> and a regular expression without the \<open>u\<close> flag work on. The
  string literals of the source are ASCII; \<open>js\<close> gives the code units of one.
\<close>

type_synonym jstring = "16 word list"

definition js :: "string \<Rightarrow> jstring" where
  "js s = map of_char s"

text \<open>
  A value that may be a string, \<open>null\<close> or \<open>undefined\<close> (what reading an array out of
  range gives).
\<close>

datatype jsval = Undefined | Null | Str jstring

text \<open>\<open>xs[i]\<close> on an array of strings.\<close>

definition index :: "jstring list \<Rightarrow> nat \<Rightarrow> jsval" where
  "index xs i = (if i < length xs then Str (xs ! i) else Undefined)"

text \<open>
  A number is an integer or \<open>NaN\<close> (\<open>None\<close>): the identifiers and counters of the
  job are small integers, which the doubles of JavaScript represent exactly, and
  \<open>NaN\<close> is what \<open>%\<close> gives on a zero divisor.
\<close>

type_synonym jsnum = "int option"

definition js_add :: "jsnum \<Rightarrow> jsnum \<Rightarrow> jsnum" where
  "js_add a b = (case (a, b) of (Some x, Some y) \<Rightarrow> Some (x + y) | _ \<Rightarrow> None)"

text \<open>\<open>a % b\<close>: the remainder takes the sign of the dividend; a zero divisor gives \<open>NaN\<close>.\<close>

definition js_rem :: "jsnum \<Rightarrow> jsnum \<Rightarrow> jsnum" where
  "js_rem a b =
     (case (a, b) of
        (Some x, Some y) \<Rightarrow> (if y = 0 then None else Some (x smod y))
      | _ \<Rightarrow> None)"

text \<open>
  The character class \<open>\s\<close> of a regular expression: the white space and the line
  terminators of ECMAScript. They are the code units U+0009 to U+000D, U+0020,
  U+00A0, U+1680, U+2000 to U+200A, U+2028, U+2029, U+202F, U+205F, U+3000 and
  U+FEFF.
\<close>

definition is_space :: "16 word \<Rightarrow> bool" where
  "is_space c \<longleftrightarrow>
     c \<in> {0x09, 0x0A, 0x0B, 0x0C, 0x0D, 0x20, 0xA0, 0x1680,
          0x2000, 0x2001, 0x2002, 0x2003, 0x2004, 0x2005, 0x2006, 0x2007, 0x2008, 0x2009,
          0x200A, 0x2028, 0x2029, 0x202F, 0x205F, 0x3000, 0xFEFF}"

text \<open>\<open>s.replace(/^\s+|\s+$/g, "")\<close>: the leading and the trailing run of whitespace go.\<close>

definition trim :: "jstring \<Rightarrow> jstring" where
  "trim s = rev (dropWhile is_space (rev (dropWhile is_space s)))"

text \<open>\<open>s.slice(0, -5)\<close>: all but the last five characters, the empty string when there
  are fewer.\<close>

definition slice_0_minus5 :: "jstring \<Rightarrow> jstring" where
  "slice_0_minus5 s = take (length s - 5) s"

subsection \<open>Data\<close>

datatype job_states = READY | PRIMED | EXECUTED

definition Verdict_AC :: jstring where "Verdict_AC = (js ''AC'')"
definition Verdict_WA :: jstring where "Verdict_WA = (js ''WA'')"
definition Verdict_COMPILATION :: jstring where "Verdict_COMPILATION = (js ''COMPILATION'')"
definition Verdict_RUNTIME :: jstring where "Verdict_RUNTIME = (js ''RUNTIME'')"
definition Verdict_TLE :: jstring where "Verdict_TLE = (js ''TLE'')"

text \<open>What the job reads of its runtime, of a file, of its timeouts and of the configuration.\<close>

record runtime_t =
  language :: jstring
  compiled :: bool
  pkgdir :: jstring
  env_vars :: "(jstring \<times> jstring) list"

record file_t =
  name :: jstring
  content :: jstring

record timeouts_t =
  t_compile :: int
  t_run :: int

record config =
  data_directory :: jstring
  runner_uid_min :: int
  runner_uid_max :: int
  runner_gid_min :: int
  runner_gid_max :: int
  max_process_count :: int
  max_open_files :: int
  output_max_size :: nat
  disable_networking :: bool

text \<open>The argument of the constructor, and the job it builds.\<close>

record job_spec =
  runtime :: runtime_t
  files :: "file_t list"
  args :: "jstring list"
  stdin :: "jstring list"
  expected_output :: "jstring list option"
  timeouts :: timeouts_t
  main :: jstring
  alias_name :: jstring

record job = job_spec +
  uuid :: jstring
  uid :: jsnum
  gid :: jsnum
  state :: job_states
  dir :: jstring

text \<open>What \<open>safe_call\<close> resolves with.\<close>

record run_result =
  stdout :: jstring
  stderr :: jstring
  code :: "int option"
  signal :: "jstring option"
  rstdin :: jstring

text \<open>
  A verdict is an object literal: its keys in the order they are written, each with
  its value. \<open>execute\<close> and \<open>evaluate\<close> return \<open>{ compile, run, verdict }\<close>, where
  \<open>compile\<close> is \<open>undefined\<close> (\<open>None\<close>) for a runtime that is not compiled.
\<close>

type_synonym verdict_t = "(string \<times> jsval) list"

record result =
  compile :: "run_result option"
  run :: "run_result list"
  verdict :: verdict_t

datatype error =
    MainNotWritten    \<comment> \<open>the constructor: main is not among the files\<close>
  | NotPrimed         \<comment> \<open>execute: the job is not in the primed state\<close>
  | FsError           \<comment> \<open>a rejected filesystem call\<close>
  | SpawnError        \<comment> \<open>safe_call rejected: the child emitted "error"\<close>
  | TypeError         \<comment> \<open>a method called on undefined\<close>

subsection \<open>evaluate\<close>

definition run_verdict :: "jstring \<Rightarrow> jsval \<Rightarrow> jsval \<Rightarrow> jsval \<Rightarrow> verdict_t" where
  "run_verdict st out inp exp =
     [(''status'', Str st), (''stdout'', out), (''stdin'', inp), (''expected_output'', exp)]"

text \<open>
  The loop of \<open>evaluate\<close> from index \<open>i\<close> on. The array \<open>rs\<close> is the caller's: the
  assignment to \<open>run[i].stdout\<close> changes it, so the function returns the array as the
  call leaves it next to what the call returns or throws.
\<close>

function evaluate_from ::
  "job \<Rightarrow> run_result option \<Rightarrow> nat \<Rightarrow> run_result list \<Rightarrow> run_result list \<times> (error + result)"
where
  "evaluate_from j c i rs =
     (if i < length rs then
        (let expected = (case expected_output j of Some eo \<Rightarrow> index eo i | None \<Rightarrow> Null) in
         if stderr (rs ! i) \<noteq> [] then
           (rs, Inr \<lparr>compile = c, run = rs,
                     verdict = run_verdict Verdict_RUNTIME (Str (stderr (rs ! i)))
                                 (index (stdin j) i) expected\<rparr>)
         else if signal (rs ! i) = Some (js ''SIGKILL'') then
           (rs, Inr \<lparr>compile = c, run = rs,
                     verdict = run_verdict Verdict_TLE (Str (stdout (rs ! i)))
                                 (index (stdin j) i) expected\<rparr>)
         else
           (case expected_output j of
              None \<Rightarrow> evaluate_from j c (Suc i) rs
            | Some eo \<Rightarrow>
                (let rs1 = rs[i := (rs ! i)\<lparr>stdout := trim (stdout (rs ! i))\<rparr>] in
                 case expected of
                   Str e \<Rightarrow>
                     (let expected1 = Str (trim e) in
                      if Str (stdout (rs1 ! i)) \<noteq> index eo i then
                        (rs1, Inr \<lparr>compile = c, run = rs1,
                                   verdict = run_verdict Verdict_WA (Str (stdout (rs1 ! i)))
                                               (index (stdin j) i) expected1\<rparr>)
                      else evaluate_from j c (Suc i) rs1)
                 | _ \<Rightarrow> (rs1, Inl TypeError))))
      else
        (rs, Inr \<lparr>compile = c, run = rs,
                  verdict = run_verdict Verdict_AC
                              (if length rs > 0 then Str (stdout (rs ! 0)) else Null)
                              (if length (stdin j) > 0 then Str (stdin j ! 0) else Null)
                              Null\<rparr>))"
  by pat_completeness auto
termination
  by (relation "measure (\<lambda>(j, c, i, rs). length rs - i)") auto

definition evaluate ::
  "job \<Rightarrow> run_result list \<Rightarrow> run_result option \<Rightarrow> run_result list \<times> (error + result)"
where
  "evaluate j rs c = evaluate_from j c 0 rs"

subsection \<open>The identity counters and the constructor\<close>

text \<open>The module-level variables \<open>uid\<close> and \<open>gid\<close>, both \<open>0\<close> when the module is loaded.\<close>

record counters =
  uid_counter :: jsnum
  gid_counter :: jsnum

definition initial_counters :: counters where
  "initial_counters = \<lparr>uid_counter = Some 0, gid_counter = Some 0\<rparr>"

text \<open>
  \<open>shuffle_ids\<close> returns the counters as it leaves them and the pair it stores in
  \<open>this.uid\<close> and \<open>this.gid\<close>.
\<close>

definition shuffle_ids :: "config \<Rightarrow> counters \<Rightarrow> counters \<times> (jsnum \<times> jsnum)" where
  "shuffle_ids cfg cs =
     (let this_uid = js_add (Some (runner_uid_min cfg)) (uid_counter cs);
          this_gid = js_add (Some (runner_gid_min cfg)) (gid_counter cs);
          u1 = js_add (uid_counter cs) (Some 1);
          g1 = js_add (gid_counter cs) (Some 1);
          u2 = js_rem u1 (Some (runner_uid_max cfg - runner_uid_min cfg + 1));
          g2 = js_rem g1 (Some (runner_gid_max cfg - runner_gid_min cfg + 1))
      in (\<lparr>uid_counter = u2, gid_counter = g2\<rparr>, (this_uid, this_gid)))"

text \<open>The counters after \<open>n\<close> allocations.\<close>

fun allocations :: "config \<Rightarrow> nat \<Rightarrow> counters \<Rightarrow> counters" where
  "allocations cfg 0 cs = cs"
| "allocations cfg (Suc n) cs = allocations cfg n (fst (shuffle_ids cfg cs))"

text \<open>\<open>path.join\<close> of two segments, without the normalisation Node applies to the result.\<close>

definition path_join :: "jstring \<Rightarrow> jstring \<Rightarrow> jstring" where
  "path_join a b = a @ (js ''/'') @ b"

text \<open>Modelled from the spec: \<open>globals.data_directories.jobs\<close>, the directory
  \<open>jobs\<close> under the data directory; \<open>globals.js\<close> is not among the sources.\<close>

definition data_directories_jobs :: jstring where
  "data_directories_jobs = (js ''jobs'')"

text \<open>
  \<open>new Job(spec)\<close>, with the counters it shares with every other job and the UUID that
  \<open>uuidv4()\<close> draws. A constructor that throws leaves no job behind.
\<close>

definition new_Job :: "config \<Rightarrow> counters \<Rightarrow> jstring \<Rightarrow> job_spec \<Rightarrow> counters \<times> (error + job)" where
  "new_Job cfg cs fresh_uuid spec =
     (let file_list = map name (files spec) in
      if main spec \<notin> set file_list then (cs, Inl MainNotWritten)
      else
        (let (cs1, (u, g)) = shuffle_ids cfg cs in
         (cs1, Inr \<lparr>runtime = runtime spec, files = files spec, args = args spec,
                     stdin = stdin spec, expected_output = expected_output spec,
                     timeouts = timeouts spec, main = main spec,
                     alias_name = alias_name spec,
                     uuid = fresh_uuid, uid = u, gid = g, state = READY,
                     dir = path_join (path_join (data_directory cfg) data_directories_jobs)
                             fresh_uuid\<rparr>)))"

subsection \<open>prime\<close>

text \<open>
  The calls \<open>prime\<close> makes to \<open>fs/promises\<close>. The filesystem is the environment: it is
  a parameter that says which calls succeed. The first rejected call ends \<open>prime\<close>
  with that rejection, and the calls made so far are returned as a trace.
\<close>

datatype fs_op =
    Mkdir jstring nat
  | Chown jstring jsnum jsnum
  | WriteFile jstring jstring

fun do_fs :: "(fs_op \<Rightarrow> bool) \<Rightarrow> fs_op list \<Rightarrow> fs_op list \<times> bool" where
  "do_fs fs [] = ([], True)"
| "do_fs fs (x # xs) =
     (if fs x then (let (tr, ok) = do_fs fs xs in (x # tr, ok)) else ([x], False))"

definition file_ops :: "job \<Rightarrow> file_t \<Rightarrow> fs_op list" where
  "file_ops j f =
     (let file_path = path_join (dir j) (name f) in
      [WriteFile file_path (content f), Chown file_path (uid j) (gid j)])"

definition prime :: "(fs_op \<Rightarrow> bool) \<Rightarrow> job \<Rightarrow> job \<times> fs_op list \<times> (error + unit)" where
  "prime fs j =
     (let (tr, ok) = do_fs fs ([Mkdir (dir j) 448, Chown (dir j) (uid j) (gid j)]
                                @ concat (map (file_ops j) (files j)))
      in if ok then (j\<lparr>state := PRIMED\<rparr>, tr, Inr ())
         else (j, tr, Inl FsError))"

subsection \<open>safe_call\<close>

text \<open>
  The child process is the environment. What \<open>safe_call\<close> sees of it is a sequence of
  \<open>data\<close> events on its two output streams, each with a chunk (taken as the string
  that \<open>+=\<close> appends to the buffer), and then the event that settles the promise:
  \<open>exit\<close> with a code and a signal, or \<open>error\<close>. The timer that kills the child
  after the timeout and the teardown of the process group act on the child; what they
  do to it shows in the events it delivers.
\<close>

datatype stream = Stdout | Stderr

datatype ending = Exit "int option" "jstring option" | Failed

record child =
  chunks :: "(stream \<times> jstring) list"
  ending :: ending

text \<open>
  The two buffers of one call, and the number of times a \<open>data\<close> handler has called
  \<open>proc.kill("SIGKILL")\<close>.
\<close>

record buffers =
  buf_stdout :: jstring
  buf_stderr :: jstring
  kills :: nat

definition empty_buffers :: buffers where
  "empty_buffers = \<lparr>buf_stdout = [], buf_stderr = [], kills = 0\<rparr>"

text \<open>The handlers \<open>proc.stdout.on("data", ...)\<close> and \<open>proc.stderr.on("data", ...)\<close>.\<close>

fun on_data :: "nat \<Rightarrow> buffers \<Rightarrow> stream \<times> jstring \<Rightarrow> buffers" where
  "on_data m b (Stdout, d) =
     (if length (buf_stdout b) > m then b\<lparr>kills := Suc (kills b)\<rparr>
      else b\<lparr>buf_stdout := buf_stdout b @ d\<rparr>)"
| "on_data m b (Stderr, d) =
     (if length (buf_stderr b) > m then b\<lparr>kills := Suc (kills b)\<rparr>
      else b\<lparr>buf_stderr := buf_stderr b @ d\<rparr>)"

definition drain :: "nat \<Rightarrow> (stream \<times> jstring) list \<Rightarrow> buffers" where
  "drain m evs = foldl (on_data m) empty_buffers evs"

text \<open>What a call asks the sandbox to run, and as whom.\<close>

record call =
  c_file :: jstring
  c_args :: "jstring list"
  c_timeout :: int
  c_stdin :: jstring
  c_cwd :: jstring
  c_uid :: jsnum
  c_gid :: jsnum

text \<open>The world tells how the child of each call behaves.\<close>

type_synonym world = "call \<Rightarrow> child"

definition the_call :: "job \<Rightarrow> jstring \<Rightarrow> jstring list \<Rightarrow> int \<Rightarrow> jstring \<Rightarrow> call" where
  "the_call j file as timeout sin =
     \<lparr>c_file = file, c_args = as, c_timeout = timeout, c_stdin = sin,
      c_cwd = dir j, c_uid = uid j, c_gid = gid j\<rparr>"

text \<open>
  \<open>safe_call(file, args, timeout, stdin)\<close> once its promise has settled: resolved
  with a RunResult, or rejected.
\<close>

definition safe_call ::
  "config \<Rightarrow> world \<Rightarrow> job \<Rightarrow> jstring \<Rightarrow> jstring list \<Rightarrow> int \<Rightarrow> jstring \<Rightarrow> error + run_result"
where
  "safe_call cfg w j file as timeout sin =
     (let proc = w (the_call j file as timeout sin);
          b = drain (output_max_size cfg) (chunks proc)
      in case ending proc of
           Exit cd sg \<Rightarrow>
             Inr \<lparr>stdout = buf_stdout b, stderr = buf_stderr b, code = cd, signal = sg,
                  rstdin = sin\<rparr>
         | Failed \<Rightarrow> Inl SpawnError)"

subsection \<open>execute\<close>

text \<open>
  The trace of \<open>execute\<close>: a child is spawned when \<open>safe_call\<close> is called, and the
  method waits where it says \<open>await\<close>, for one promise or, with \<open>Promise.all\<close>, for
  all of a list.
\<close>

datatype event = Spawn call | Await call | AwaitAll "call list"

definition compile_call :: "job \<Rightarrow> call" where
  "compile_call j =
     the_call j (path_join (pkgdir (runtime j)) (js ''compile'')) (map name (files j))
       (t_compile (timeouts j)) []"

definition run_call :: "job \<Rightarrow> jstring \<Rightarrow> call" where
  "run_call j sin =
     the_call j (path_join (pkgdir (runtime j)) (js ''run'')) (main j # args j)
       (t_run (timeouts j)) sin"

definition safe_call_run :: "config \<Rightarrow> world \<Rightarrow> job \<Rightarrow> jstring \<Rightarrow> error + run_result" where
  "safe_call_run cfg w j sin =
     safe_call cfg w j (path_join (pkgdir (runtime j)) (js ''run'')) (main j # args j)
       (t_run (timeouts j)) sin"

text \<open>
  The loop of \<open>run_in_band\<close> over the inputs still to run: each call is awaited before
  the next is made, and a rejected one ends the loop.
\<close>

fun run_in_band_from ::
  "config \<Rightarrow> world \<Rightarrow> job \<Rightarrow> jstring list \<Rightarrow> event list \<times> (error + run_result list)"
where
  "run_in_band_from cfg w j [] = ([], Inr [])"
| "run_in_band_from cfg w j (sin # sins) =
     (case safe_call_run cfg w j sin of
        Inl e \<Rightarrow> ([Spawn (run_call j sin), Await (run_call j sin)], Inl e)
      | Inr r \<Rightarrow>
          (case run_in_band_from cfg w j sins of
             (tr, Inl e) \<Rightarrow> (Spawn (run_call j sin) # Await (run_call j sin) # tr, Inl e)
           | (tr, Inr rs) \<Rightarrow>
               (Spawn (run_call j sin) # Await (run_call j sin) # tr, Inr (r # rs))))"

definition run_in_band ::
  "config \<Rightarrow> world \<Rightarrow> job \<Rightarrow> event list \<times> (error + run_result list)"
where
  "run_in_band cfg w j = run_in_band_from cfg w j (stdin j)"

text \<open>
  \<open>run_in_parallel\<close> makes every call and then awaits \<open>Promise.all\<close>, which resolves
  with the results in the order of the promises, or rejects when one of them does.
\<close>

fun all_settled :: "(error + run_result) list \<Rightarrow> error + run_result list" where
  "all_settled [] = Inr []"
| "all_settled (Inl e # ps) = Inl SpawnError"
| "all_settled (Inr r # ps) =
     (case all_settled ps of Inl e \<Rightarrow> Inl e | Inr rs \<Rightarrow> Inr (r # rs))"

definition run_in_parallel ::
  "config \<Rightarrow> world \<Rightarrow> job \<Rightarrow> event list \<times> (error + run_result list)"
where
  "run_in_parallel cfg w j =
     (let cs = map (run_call j) (stdin j) in
      (map Spawn cs @ [AwaitAll cs], all_settled (map (safe_call_run cfg w j) (stdin j))))"

definition compile_verdict :: "run_result \<Rightarrow> verdict_t" where
  "compile_verdict cr =
     [(''status'', Str Verdict_COMPILATION),
      (''output'', Str (if stderr cr \<noteq> [] then stderr cr
                        else (js ''Something went wrong during compilation''))),
      (''stdin'', Null),
      (''expectedOutput'', Null)]"

text \<open>The job once \<open>execute\<close> has adjusted \<open>this.main\<close> for the run phase.\<close>

definition adjust_main :: "job \<Rightarrow> job" where
  "adjust_main j =
     (if language (runtime j) = (js ''java'') \<and> compiled (runtime j)
      then j\<lparr>main := slice_0_minus5 (main j)\<rparr> else j)"

text \<open>
  The run phase of \<open>execute\<close>, \<open>cr\<close> being what the compile call resolved with
  (\<open>None\<close>, for \<open>undefined\<close>, when no call was made).
\<close>

definition run_phase ::
  "config \<Rightarrow> world \<Rightarrow> job \<Rightarrow> run_result option \<Rightarrow> job \<times> event list \<times> (error + result)"
where
  "run_phase cfg w j cr =
     (let j1 = adjust_main j;
          (tr, rs) = (if language (runtime j) = (js ''java'') then run_in_band cfg w j1
                      else run_in_parallel cfg w j1)
      in case rs of
           Inl e \<Rightarrow> (j1, tr, Inl e)
         | Inr rs1 \<Rightarrow>
             (let j2 = j1\<lparr>state := EXECUTED\<rparr> in
              (j2, tr, snd (evaluate j2 rs1 cr))))"

text \<open>
  \<open>execute\<close> after the compile phase: the short-circuit on a failed compilation, or
  the run phase. Reading \<open>compile.stderr\<close> when \<open>compile\<close> is \<open>undefined\<close> throws.
\<close>

definition execute_run ::
  "config \<Rightarrow> world \<Rightarrow> job \<Rightarrow> run_result option \<Rightarrow> job \<times> event list \<times> (error + result)"
where
  "execute_run cfg w j cr =
     (if compiled (runtime j) then
        (case cr of
           None \<Rightarrow> (j, [], Inl TypeError)
         | Some c \<Rightarrow>
             if stderr c \<noteq> [] \<or> signal c = Some (js ''SIGKILL'')
             then (j, [], Inr \<lparr>compile = cr, run = [], verdict = compile_verdict c\<rparr>)
             else run_phase cfg w j cr)
      else run_phase cfg w j cr)"

definition execute :: "config \<Rightarrow> world \<Rightarrow> job \<Rightarrow> job \<times> event list \<times> (error + result)" where
  "execute cfg w j =
     (if state j \<noteq> PRIMED then (j, [], Inl NotPrimed)
      else if compiled (runtime j) then
        (case safe_call cfg w j (path_join (pkgdir (runtime j)) (js ''compile''))
                (map name (files j)) (t_compile (timeouts j)) [] of
           Inl e \<Rightarrow> (j, [Spawn (compile_call j), Await (compile_call j)], Inl e)
         | Inr c \<Rightarrow>
             (let (j1, tr, res) = execute_run cfg w j (Some c) in
              (j1, Spawn (compile_call j) # Await (compile_call j) # tr, res)))
      else execute_run cfg w j None)"

subsection \<open>Notions used in the properties\<close>

text \<open>The array after the assignment to \<open>run[i].stdout\<close> in \<open>evaluate\<close>.\<close>

definition trimmed_at :: "nat \<Rightarrow> run_result list \<Rightarrow> run_result list" where
  "trimmed_at i rs = rs[i := (rs ! i)\<lparr>stdout := trim (stdout (rs ! i))\<rparr>]"

text \<open>The chunks a stream delivered, in order.\<close>

definition chunks_of :: "stream \<Rightarrow> (stream \<times> jstring) list \<Rightarrow> jstring list" where
  "chunks_of st evs = map snd (filter (\<lambda>e. fst e = st) evs)"

text \<open>The trace of runs made one after the other, each awaited before the next is spawned.\<close>

definition serial_trace :: "job \<Rightarrow> jstring list \<Rightarrow> event list" where
  "serial_trace j ss = concat (map (\<lambda>s. [Spawn (run_call j s), Await (run_call j s)]) ss)"

text \<open>The trace of runs all spawned before any is awaited.\<close>

definition parallel_trace :: "job \<Rightarrow> jstring list \<Rightarrow> event list" where
  "parallel_trace j ss = map (\<lambda>s. Spawn (run_call j s)) ss @ [AwaitAll (map (run_call j) ss)]"

text \<open>The trace of the compile phase.\<close>

definition compile_trace :: "job \<Rightarrow> event list" where
  "compile_trace j =
     (if compiled (runtime j) then [Spawn (compile_call j), Await (compile_call j)] else [])"

text \<open>
  The loop of \<open>evaluate\<close> goes on from index \<open>i\<close> to the next: the body takes none of
  its three returns (the tests of lines 253, 266 and 282 of the source, the last
  one against \<open>this.expected_output[i]\<close> as it is written there), and does not throw.
\<close>

definition loop_continues :: "job \<Rightarrow> run_result list \<Rightarrow> nat \<Rightarrow> bool" where
  "loop_continues j rs i \<longleftrightarrow>
     stderr (rs ! i) = [] \<and> signal (rs ! i) \<noteq> Some (js ''SIGKILL'') \<and>
     (case expected_output j of
        None \<Rightarrow> True
      | Some eo \<Rightarrow> i < length eo \<and> trim (stdout (rs ! i)) = eo ! i)"

subsection \<open>Example inputs\<close>

definition example_config :: config where
  "example_config =
     \<lparr>data_directory = (js ''/piston''), runner_uid_min = 1001, runner_uid_max = 1003,
      runner_gid_min = 1001, runner_gid_max = 1002, max_process_count = 64,
      max_open_files = 2048, output_max_size = 4, disable_networking = True\<rparr>"

definition example_spec :: job_spec where
  "example_spec =
     \<lparr>runtime = \<lparr>language = (js ''python''), compiled = False, pkgdir = (js ''/pkg/python''),
                 env_vars = []\<rparr>,
      files = [\<lparr>name = (js ''a.py''), content = (js ''print(input())'')\<rparr>],
      args = [], stdin = [(js ''hi'')], expected_output = Some [(js ''hi'')],
      timeouts = \<lparr>t_compile = 0, t_run = 5000\<rparr>,
      main = (js ''a.py''), alias_name = (js ''python'')\<rparr>"

definition example_java_job :: job where
  "example_java_job =
     \<lparr>runtime = \<lparr>language = (js ''java''), compiled = True, pkgdir = (js ''/pkg/java''), env_vars = []\<rparr>,
      files = [\<lparr>name = (js ''Main.java''), content = (js ''class Main {}'')\<rparr>],
      args = [], stdin = [(js ''1''), (js ''2'')], expected_output = None,
      timeouts = \<lparr>t_compile = 10000, t_run = 3000\<rparr>,
      main = (js ''Main.java''), alias_name = (js ''java''),
      uuid = (js ''u1''), uid = Some 1001, gid = Some 1001, state = PRIMED,
      dir = (js ''/piston/jobs/u1'')\<rparr>"

definition example_python_job :: job where
  "example_python_job =
     \<lparr>runtime = \<lparr>language = (js ''python''), compiled = False, pkgdir = (js ''/pkg/python''),
                 env_vars = []\<rparr>,
      files = [\<lparr>name = (js ''a.py''), content = (js ''print(input())'')\<rparr>],
      args = [], stdin = [(js ''hi'')], expected_output = Some [(js ''hi'')],
      timeouts = \<lparr>t_compile = 0, t_run = 5000\<rparr>,
      main = (js ''a.py''), alias_name = (js ''python''),
      uuid = (js ''u2''), uid = Some 1002, gid = Some 1002, state = PRIMED,
      dir = (js ''/piston/jobs/u2'')\<rparr>"

text \<open>A world where the compiler writes a diagnostic, and one where every child
  echoes its input and exits with code 0.\<close>

definition syntax_error_world :: world where
  "syntax_error_world c =
     (if c_file c = (js ''/pkg/java/compile'')
      then \<lparr>chunks = [(Stderr, (js ''syntax error''))], ending = Exit (Some 1) None\<rparr>
      else \<lparr>chunks = [], ending = Exit (Some 0) None\<rparr>)"

definition echo_world :: world where
  "echo_world c =
     (if c_file c = (js ''/pkg/java/compile'')
      then \<lparr>chunks = [], ending = Exit (Some 0) None\<rparr>
      else \<lparr>chunks = [(Stdout, c_stdin c)], ending = Exit (Some 0) None\<rparr>)"

text \<open>A world where every child writes two chunks, of three and of five characters,
  and exits.\<close>

definition chatty_world :: world where
  "chatty_world c = \<lparr>chunks = [(Stdout, (js ''abc'')), (Stdout, (js ''defgh''))], ending = Exit (Some 0) None\<rparr>"

text \<open>RunResults of a child that printed \<open>hi\<close>, without and with a final line feed,
  and a job with two test cases: the first expected output ends in a line feed, the
  second run wrote to stderr.\<close>

definition hi_run :: run_result where
  "hi_run = \<lparr>stdout = (js ''hi''), stderr = [], code = Some 0, signal = None, rstdin = (js ''hi'')\<rparr>"

definition hi_newline_run :: run_result where
  "hi_newline_run = \<lparr>stdout = (js ''hi\<newline>''), stderr = [], code = Some 0, signal = None,
                      rstdin = (js ''hi'')\<rparr>"

definition two_case_job :: job where
  "two_case_job =
     example_python_job\<lparr>stdin := [js ''a'', js ''b''],
                          expected_output := Some [js ''1\<newline>'', js ''2'']\<rparr>"

definition two_case_run :: "run_result list" where
  "two_case_run =
     [\<lparr>stdout = js ''1'', stderr = [], code = Some 0, signal = None, rstdin = js ''a''\<rparr>,
      \<lparr>stdout = [], stderr = js ''boom'', code = Some 1, signal = None, rstdin = js ''b''\<rparr>]"

section \<open>Properties\<close>

subsection \<open>String literals\<close>

lemma unat_of_char: "unat (of_char c :: 16 word) = of_char c"
proof -
  have "(of_char c :: 16 word) = of_nat (of_char c)" by (simp add: of_nat_of_char)
  moreover have "(of_char c :: nat) < 2 ^ 16"
  proof -
    have "(of_char c :: nat) < 256" by (rule nat_of_char_less_256)
    also have "(256 :: nat) < 2 ^ 16" by simp
    finally show ?thesis .
  qed
  ultimately show ?thesis by (simp add: unat_of_nat take_bit_nat_eq_self)
qed

lemma of_char_eq_iff16: "(of_char a :: 16 word) = of_char b \<longleftrightarrow> a = b"
proof
  assume "(of_char a :: 16 word) = of_char b"
  then have "unat (of_char a :: 16 word) = unat (of_char b :: 16 word)" by simp
  then show "a = b" by (simp add: unat_of_char)
qed simp

lemma js_eq_iff [simp]: "js a = js b \<longleftrightarrow> a = b"
  unfolding js_def by (rule inj_map_eq_map) (simp add: inj_def of_char_eq_iff16)

lemma js_Nil_iff [simp]: "js s = [] \<longleftrightarrow> s = []" "[] = js s \<longleftrightarrow> s = []"
  by (auto simp: js_def)

lemma js_append [simp]: "js a @ js b = js (a @ b)"
  by (simp add: js_def)

lemma length_js [simp]: "length (js s) = length s"
  by (simp add: js_def)

lemma take_js [simp]: "take n (js s) = js (take n s)"
  by (simp add: js_def take_map)


subsection \<open>The constructor and the identity counters\<close>

text \<open>
  Claim C10. When \<open>main\<close> is not the name of one of the files, the constructor
  throws before it calls \<open>shuffle_ids\<close>: the call returns the error and the shared
  counters exactly as it found them, so no (uid, gid) pair is consumed. (When
  \<open>main\<close> is among the names, the counters are those \<open>shuffle_ids\<close> leaves.)
\<close>

theorem new_Job_rejected_keeps_counters:
  "(main spec \<notin> set (map name (files spec)) \<longrightarrow>
      new_Job cfg cs fresh_uuid spec = (cs, Inl MainNotWritten)) \<and>
   (main spec \<in> set (map name (files spec)) \<longrightarrow>
      fst (new_Job cfg cs fresh_uuid spec) = fst (shuffle_ids cfg cs) \<and>
      (\<exists>j. snd (new_Job cfg cs fresh_uuid spec) = Inr j \<and>
           (uid j, gid j) = snd (shuffle_ids cfg cs) \<and> state j = READY))"
  by (simp add: new_Job_def split: prod.splits)

theorem new_Job_rejected_keeps_counters_witness:
  "new_Job example_config \<lparr>uid_counter = Some 2, gid_counter = Some 1\<rparr> (js ''u1'')
     (example_spec\<lparr>main := (js ''b.py'')\<rparr>)
   = (\<lparr>uid_counter = Some 2, gid_counter = Some 1\<rparr>, Inl MainNotWritten)
   \<and> fst (new_Job example_config \<lparr>uid_counter = Some 2, gid_counter = Some 1\<rparr> (js ''u1'')
           example_spec)
     = \<lparr>uid_counter = Some 0, gid_counter = Some 0\<rparr>"
  using new_Job_rejected_keeps_counters
          [of "example_spec\<lparr>main := (js ''b.py'')\<rparr>" example_config
              "\<lparr>uid_counter = Some 2, gid_counter = Some 1\<rparr>" "(js ''u1'')"]
        new_Job_rejected_keeps_counters
          [of example_spec example_config
              "\<lparr>uid_counter = Some 2, gid_counter = Some 1\<rparr>" "(js ''u1'')"]
  by (simp add: example_spec_def example_config_def shuffle_ids_def js_add_def js_rem_def
        signed_modulo_int_def)

lemma smod_nonneg: "0 \<le> x \<Longrightarrow> 0 < y \<Longrightarrow> (x::int) smod y = x mod y"
  by (cases "x = 0") (simp_all add: signed_modulo_int_def)

lemma shuffle_ids_step:
  assumes "0 \<le> cu" "0 \<le> cg"
    and "runner_uid_min cfg \<le> runner_uid_max cfg"
    and "runner_gid_min cfg \<le> runner_gid_max cfg"
  shows "shuffle_ids cfg \<lparr>uid_counter = Some cu, gid_counter = Some cg\<rparr> =
    (\<lparr>uid_counter = Some ((cu + 1) mod (runner_uid_max cfg - runner_uid_min cfg + 1)),
      gid_counter = Some ((cg + 1) mod (runner_gid_max cfg - runner_gid_min cfg + 1))\<rparr>,
     (Some (runner_uid_min cfg + cu), Some (runner_gid_min cfg + cg)))"
  using assms by (simp add: shuffle_ids_def js_add_def js_rem_def smod_nonneg Let_def)

lemma allocations_closed_form:
  assumes "runner_uid_min cfg \<le> runner_uid_max cfg"
    and "runner_gid_min cfg \<le> runner_gid_max cfg"
  shows "0 \<le> cu \<Longrightarrow> 0 \<le> cg \<Longrightarrow> cu < runner_uid_max cfg - runner_uid_min cfg + 1 \<Longrightarrow>
         cg < runner_gid_max cfg - runner_gid_min cfg + 1 \<Longrightarrow>
    allocations cfg n \<lparr>uid_counter = Some cu, gid_counter = Some cg\<rparr> =
      \<lparr>uid_counter = Some ((cu + int n) mod (runner_uid_max cfg - runner_uid_min cfg + 1)),
       gid_counter = Some ((cg + int n) mod (runner_gid_max cfg - runner_gid_min cfg + 1))\<rparr>"
proof (induction n arbitrary: cu cg)
  case 0
  then show ?case by simp
next
  case (Suc n)
  let ?ru = "runner_uid_max cfg - runner_uid_min cfg + 1"
  let ?rg = "runner_gid_max cfg - runner_gid_min cfg + 1"
  have pos: "0 < ?ru" "0 < ?rg" using assms by simp_all
  have step: "allocations cfg (Suc n) \<lparr>uid_counter = Some cu, gid_counter = Some cg\<rparr> =
      allocations cfg n \<lparr>uid_counter = Some ((cu + 1) mod ?ru),
                          gid_counter = Some ((cg + 1) mod ?rg)\<rparr>"
    using shuffle_ids_step [OF Suc.prems(1,2) assms] by simp
  have "allocations cfg n \<lparr>uid_counter = Some ((cu + 1) mod ?ru),
                            gid_counter = Some ((cg + 1) mod ?rg)\<rparr> =
        \<lparr>uid_counter = Some (((cu + 1) mod ?ru + int n) mod ?ru),
         gid_counter = Some (((cg + 1) mod ?rg + int n) mod ?rg)\<rparr>"
  proof (rule Suc.IH)
    show "0 \<le> (cu + 1) mod ?ru" "0 \<le> (cg + 1) mod ?rg"
      using pos by (simp_all only: pos_mod_sign)
    show "(cu + 1) mod ?ru < ?ru" "(cg + 1) mod ?rg < ?rg"
      using pos by (simp_all only: pos_mod_bound)
  qed
  moreover have "((cu + 1) mod ?ru + int n) mod ?ru = (cu + int (Suc n)) mod ?ru"
    using mod_add_left_eq [of "cu + 1" ?ru "int n"] by (simp only: of_nat_Suc ac_simps)
  moreover have "((cg + 1) mod ?rg + int n) mod ?rg = (cg + int (Suc n)) mod ?rg"
    using mod_add_left_eq [of "cg + 1" ?rg "int n"] by (simp only: of_nat_Suc ac_simps)
  ultimately show ?case using step by simp
qed

text \<open>
  Claim C8. With \<open>uid_max \<ge> uid_min\<close> and \<open>gid_max \<ge> gid_min\<close>, and counters
  \<open>c_u\<close>, \<open>c_g\<close> within their ranges (as they are initially, both \<open>0\<close>, and after any
  number of allocations): an allocation returns \<open>(uid_min + c_u, gid_min + c_g)\<close> and
  leaves the counters at \<open>(c_u + 1) mod (uid_max - uid_min + 1)\<close> and
  \<open>(c_g + 1) mod (gid_max - gid_min + 1)\<close>; after \<open>n\<close> allocations they are
  \<open>(c_u + n) mod\<close> and \<open>(c_g + n) mod\<close> the range sizes; and after exactly as
  many allocations as its range has members, each counter is back at \<open>c_u\<close>,
  respectively \<open>c_g\<close>.
\<close>

theorem shuffle_ids_rotates:
  assumes "runner_uid_min cfg \<le> runner_uid_max cfg"
    and "runner_gid_min cfg \<le> runner_gid_max cfg"
    and "0 \<le> cu" and "cu < runner_uid_max cfg - runner_uid_min cfg + 1"
    and "0 \<le> cg" and "cg < runner_gid_max cfg - runner_gid_min cfg + 1"
  shows "shuffle_ids cfg \<lparr>uid_counter = Some cu, gid_counter = Some cg\<rparr> =
      (\<lparr>uid_counter = Some ((cu + 1) mod (runner_uid_max cfg - runner_uid_min cfg + 1)),
        gid_counter = Some ((cg + 1) mod (runner_gid_max cfg - runner_gid_min cfg + 1))\<rparr>,
       (Some (runner_uid_min cfg + cu), Some (runner_gid_min cfg + cg)))
    \<and> allocations cfg n \<lparr>uid_counter = Some cu, gid_counter = Some cg\<rparr> =
      \<lparr>uid_counter = Some ((cu + int n) mod (runner_uid_max cfg - runner_uid_min cfg + 1)),
       gid_counter = Some ((cg + int n) mod (runner_gid_max cfg - runner_gid_min cfg + 1))\<rparr>
    \<and> uid_counter (allocations cfg (nat (runner_uid_max cfg - runner_uid_min cfg + 1))
            \<lparr>uid_counter = Some cu, gid_counter = Some cg\<rparr>) = Some cu
    \<and> gid_counter (allocations cfg (nat (runner_gid_max cfg - runner_gid_min cfg + 1))
            \<lparr>uid_counter = Some cu, gid_counter = Some cg\<rparr>) = Some cg"
proof (intro conjI)
  show "shuffle_ids cfg \<lparr>uid_counter = Some cu, gid_counter = Some cg\<rparr> =
    (\<lparr>uid_counter = Some ((cu + 1) mod (runner_uid_max cfg - runner_uid_min cfg + 1)),
      gid_counter = Some ((cg + 1) mod (runner_gid_max cfg - runner_gid_min cfg + 1))\<rparr>,
     (Some (runner_uid_min cfg + cu), Some (runner_gid_min cfg + cg)))"
    using assms by (intro shuffle_ids_step)
  show "allocations cfg n \<lparr>uid_counter = Some cu, gid_counter = Some cg\<rparr> =
      \<lparr>uid_counter = Some ((cu + int n) mod (runner_uid_max cfg - runner_uid_min cfg + 1)),
       gid_counter = Some ((cg + int n) mod (runner_gid_max cfg - runner_gid_min cfg + 1))\<rparr>"
    using assms by (intro allocations_closed_form)
  show "uid_counter (allocations cfg (nat (runner_uid_max cfg - runner_uid_min cfg + 1))
            \<lparr>uid_counter = Some cu, gid_counter = Some cg\<rparr>) = Some cu"
    using assms by (simp add: allocations_closed_form)
  show "gid_counter (allocations cfg (nat (runner_gid_max cfg - runner_gid_min cfg + 1))
            \<lparr>uid_counter = Some cu, gid_counter = Some cg\<rparr>) = Some cg"
    using assms by (simp add: allocations_closed_form)
qed

theorem shuffle_ids_rotates_witness:
  "shuffle_ids example_config initial_counters =
     (\<lparr>uid_counter = Some 1, gid_counter = Some 1\<rparr>, (Some 1001, Some 1001))
   \<and> allocations example_config 5 initial_counters = \<lparr>uid_counter = Some 2, gid_counter = Some 1\<rparr>
   \<and> uid_counter (allocations example_config 3 initial_counters) = Some 0
   \<and> gid_counter (allocations example_config 2 initial_counters) = Some 0"
  using shuffle_ids_rotates [of example_config 0 0 5]
  by (simp add: example_config_def initial_counters_def)

declare evaluate_from.simps [simp del]

subsection \<open>The loop of evaluate, branch by branch\<close>

lemma evaluate_from_end:
  "\<not> i < length rs \<Longrightarrow> evaluate_from j c i rs =
     (rs, Inr \<lparr>compile = c, run = rs,
               verdict = run_verdict Verdict_AC
                           (if length rs > 0 then Str (stdout (rs ! 0)) else Null)
                           (if length (stdin j) > 0 then Str (stdin j ! 0) else Null) Null\<rparr>)"
  by (subst evaluate_from.simps) simp

lemma evaluate_from_runtime:
  "i < length rs \<Longrightarrow> stderr (rs ! i) \<noteq> [] \<Longrightarrow> evaluate_from j c i rs =
     (rs, Inr \<lparr>compile = c, run = rs,
               verdict = run_verdict Verdict_RUNTIME (Str (stderr (rs ! i))) (index (stdin j) i)
                 (case expected_output j of Some eo \<Rightarrow> index eo i | None \<Rightarrow> Null)\<rparr>)"
  by (subst evaluate_from.simps) (simp add: Let_def)

lemma evaluate_from_tle:
  "i < length rs \<Longrightarrow> stderr (rs ! i) = [] \<Longrightarrow> signal (rs ! i) = Some (js ''SIGKILL'') \<Longrightarrow>
   evaluate_from j c i rs =
     (rs, Inr \<lparr>compile = c, run = rs,
               verdict = run_verdict Verdict_TLE (Str (stdout (rs ! i))) (index (stdin j) i)
                 (case expected_output j of Some eo \<Rightarrow> index eo i | None \<Rightarrow> Null)\<rparr>)"
  by (subst evaluate_from.simps) (simp add: Let_def)

lemma evaluate_from_noexp:
  "i < length rs \<Longrightarrow> stderr (rs ! i) = [] \<Longrightarrow> signal (rs ! i) \<noteq> Some (js ''SIGKILL'') \<Longrightarrow>
   expected_output j = None \<Longrightarrow>
   evaluate_from j c i rs = evaluate_from j c (Suc i) rs"
  by (subst evaluate_from.simps) (simp add: Let_def)

lemma evaluate_from_throws:
  "i < length rs \<Longrightarrow> stderr (rs ! i) = [] \<Longrightarrow> signal (rs ! i) \<noteq> Some (js ''SIGKILL'') \<Longrightarrow>
   expected_output j = Some eo \<Longrightarrow> \<not> i < length eo \<Longrightarrow>
   evaluate_from j c i rs = (trimmed_at i rs, Inl TypeError)"
  by (subst evaluate_from.simps) (simp add: Let_def index_def trimmed_at_def)

lemma evaluate_from_wa:
  "i < length rs \<Longrightarrow> stderr (rs ! i) = [] \<Longrightarrow> signal (rs ! i) \<noteq> Some (js ''SIGKILL'') \<Longrightarrow>
   expected_output j = Some eo \<Longrightarrow> i < length eo \<Longrightarrow> trim (stdout (rs ! i)) \<noteq> eo ! i \<Longrightarrow>
   evaluate_from j c i rs =
     (trimmed_at i rs, Inr \<lparr>compile = c, run = trimmed_at i rs,
               verdict = run_verdict Verdict_WA (Str (trim (stdout (rs ! i)))) (index (stdin j) i)
                 (Str (trim (eo ! i)))\<rparr>)"
  by (subst evaluate_from.simps) (simp add: Let_def index_def trimmed_at_def)

lemma evaluate_from_pass:
  "i < length rs \<Longrightarrow> stderr (rs ! i) = [] \<Longrightarrow> signal (rs ! i) \<noteq> Some (js ''SIGKILL'') \<Longrightarrow>
   expected_output j = Some eo \<Longrightarrow> i < length eo \<Longrightarrow> trim (stdout (rs ! i)) = eo ! i \<Longrightarrow>
   evaluate_from j c i rs = evaluate_from j c (Suc i) (trimmed_at i rs)"
  by (subst evaluate_from.simps) (simp add: Let_def index_def trimmed_at_def)

lemma evaluate_from_cases [case_names finished runtime tle noexp throws wa pass]:
  assumes "\<not> i < length rs \<Longrightarrow> P"
    and "i < length rs \<Longrightarrow> stderr (rs ! i) \<noteq> [] \<Longrightarrow> P"
    and "i < length rs \<Longrightarrow> stderr (rs ! i) = [] \<Longrightarrow> signal (rs ! i) = Some (js ''SIGKILL'') \<Longrightarrow> P"
    and "i < length rs \<Longrightarrow> stderr (rs ! i) = [] \<Longrightarrow> signal (rs ! i) \<noteq> Some (js ''SIGKILL'') \<Longrightarrow>
         expected_output j = None \<Longrightarrow> P"
    and "\<And>eo. i < length rs \<Longrightarrow> stderr (rs ! i) = [] \<Longrightarrow> signal (rs ! i) \<noteq> Some (js ''SIGKILL'') \<Longrightarrow>
         expected_output j = Some eo \<Longrightarrow> \<not> i < length eo \<Longrightarrow> P"
    and "\<And>eo. i < length rs \<Longrightarrow> stderr (rs ! i) = [] \<Longrightarrow> signal (rs ! i) \<noteq> Some (js ''SIGKILL'') \<Longrightarrow>
         expected_output j = Some eo \<Longrightarrow> i < length eo \<Longrightarrow> trim (stdout (rs ! i)) \<noteq> eo ! i \<Longrightarrow> P"
    and "\<And>eo. i < length rs \<Longrightarrow> stderr (rs ! i) = [] \<Longrightarrow> signal (rs ! i) \<noteq> Some (js ''SIGKILL'') \<Longrightarrow>
         expected_output j = Some eo \<Longrightarrow> i < length eo \<Longrightarrow> trim (stdout (rs ! i)) = eo ! i \<Longrightarrow> P"
  shows P
  using assms by (cases "expected_output j") blast+

lemma length_trimmed_at [simp]: "length (trimmed_at i rs) = length rs"
  by (simp add: trimmed_at_def)

lemma evaluate_from_shape:
  "snd (evaluate_from j c i rs) = Inr res \<Longrightarrow>
     map fst (verdict res) = [''status'', ''stdout'', ''stdin'', ''expected_output''] \<and>
     map_of (verdict res) ''status'' \<noteq> Some (Str Verdict_COMPILATION) \<and>
     length (run res) = length rs \<and> compile res = c"
proof (induction "length rs - i" arbitrary: i rs rule: less_induct)
  case less
  show ?case
  proof (cases rule: evaluate_from_cases [where i=i and rs=rs and j=j])
    case finished
    with less.prems show ?thesis
      by (auto simp: evaluate_from_end run_verdict_def Verdict_AC_def Verdict_COMPILATION_def)
  next
    case runtime
    with less.prems show ?thesis
      by (auto simp: evaluate_from_runtime run_verdict_def Verdict_RUNTIME_def
            Verdict_COMPILATION_def)
  next
    case tle
    with less.prems show ?thesis
      by (auto simp: evaluate_from_tle run_verdict_def Verdict_TLE_def Verdict_COMPILATION_def)
  next
    case noexp
    with less.prems have "snd (evaluate_from j c (Suc i) rs) = Inr res"
      by (simp add: evaluate_from_noexp)
    moreover have "length rs - Suc i < length rs - i" using noexp by simp
    ultimately show ?thesis using less.hyps by blast
  next
    case (throws eo)
    with less.prems show ?thesis by (simp add: evaluate_from_throws)
  next
    case (wa eo)
    with less.prems show ?thesis
      by (auto simp: evaluate_from_wa run_verdict_def Verdict_WA_def Verdict_COMPILATION_def)
  next
    case (pass eo)
    with less.prems have "snd (evaluate_from j c (Suc i) (trimmed_at i rs)) = Inr res"
      by (simp add: evaluate_from_pass)
    moreover have "length (trimmed_at i rs) - Suc i < length rs - i" using pass by simp
    ultimately show ?thesis using less.hyps [of "trimmed_at i rs" "Suc i"] by simp
  qed
qed

lemma evaluate_shape:
  "snd (evaluate j rs c) = Inr res \<Longrightarrow>
     map fst (verdict res) = [''status'', ''stdout'', ''stdin'', ''expected_output''] \<and>
     map_of (verdict res) ''status'' \<noteq> Some (Str Verdict_COMPILATION) \<and>
     length (run res) = length rs \<and> compile res = c"
  unfolding evaluate_def by (rule evaluate_from_shape)

subsection \<open>The two dispatch loops\<close>

lemma safe_call_error: "safe_call cfg w j f as t sin = Inl e \<Longrightarrow> e = SpawnError"
  by (auto simp: safe_call_def Let_def split: ending.splits)

lemma run_in_band_from_all_settled:
  "snd (run_in_band_from cfg w j ss) = all_settled (map (safe_call_run cfg w j) ss)"
proof (induction ss)
  case Nil show ?case by simp
next
  case (Cons s ss)
  then show ?case
    by (cases "safe_call_run cfg w j s")
       (auto simp: safe_call_run_def split: prod.splits sum.splits dest: safe_call_error)
qed

lemma all_settled_Inr:
  "all_settled ps = Inr rs \<Longrightarrow> ps = map Inr rs"
proof (induction ps arbitrary: rs rule: all_settled.induct)
qed (auto split: sum.splits)

lemma all_settled_length: "all_settled ps = Inr rs \<Longrightarrow> length rs = length ps"
  by (drule all_settled_Inr) simp

lemma all_settled_nth:
  "all_settled ps = Inr rs \<Longrightarrow> i < length rs \<Longrightarrow> ps ! i = Inr (rs ! i)"
  by (drule all_settled_Inr) simp

lemma run_in_band_length:
  "run_in_band cfg w j = (tr, Inr rs) \<Longrightarrow> length rs = length (stdin j)"
  using run_in_band_from_all_settled [of cfg w j "stdin j"] all_settled_length
  by (fastforce simp: run_in_band_def)

lemma run_in_parallel_length:
  "run_in_parallel cfg w j = (tr, Inr rs) \<Longrightarrow> length rs = length (stdin j)"
  using all_settled_length by (fastforce simp: run_in_parallel_def Let_def)

lemma run_in_band_from_trace:
  "\<exists>n\<le>length ss. fst (run_in_band_from cfg w j ss) = serial_trace j (take n ss) \<and>
       (n < length ss \<longrightarrow> snd (run_in_band_from cfg w j ss) = Inl SpawnError)"
proof (induction ss)
  case Nil
  show ?case by (simp add: serial_trace_def)
next
  case (Cons s ss)
  then obtain n where n: "n \<le> length ss"
      "fst (run_in_band_from cfg w j ss) = serial_trace j (take n ss)"
      "n < length ss \<longrightarrow> snd (run_in_band_from cfg w j ss) = Inl SpawnError"
    by blast
  show ?case
  proof (cases "safe_call_run cfg w j s")
    case (Inl e)
    then have "e = SpawnError" by (auto simp: safe_call_run_def dest: safe_call_error)
    with Inl have "fst (run_in_band_from cfg w j (s # ss)) = serial_trace j (take 1 (s # ss))"
      "snd (run_in_band_from cfg w j (s # ss)) = Inl SpawnError"
      by (simp_all add: serial_trace_def)
    then show ?thesis
      by (intro exI [of _ 1]) simp
  next
    case (Inr r)
    with n have "fst (run_in_band_from cfg w j (s # ss)) = serial_trace j (take (Suc n) (s # ss))"
      "Suc n < length (s # ss) \<longrightarrow> snd (run_in_band_from cfg w j (s # ss)) = Inl SpawnError"
      by (auto simp: serial_trace_def split: prod.splits sum.splits)
    with n(1) show ?thesis
      by (intro exI [of _ "Suc n"]) simp
  qed
qed

lemma run_in_band_from_trace_resolved:
  "snd (run_in_band_from cfg w j ss) = Inr rs \<Longrightarrow>
     fst (run_in_band_from cfg w j ss) = serial_trace j ss"
  using run_in_band_from_trace [of ss cfg w j]
  by (metis Inl_Inr_False le_neq_implies_less take_all_iff order.refl)

lemma slice_strips_five:
  "5 \<le> length s \<Longrightarrow> \<exists>sfx. length sfx = 5 \<and> s = slice_0_minus5 s @ sfx"
  by (intro exI [of _ "drop (length s - 5) s"]) (simp add: slice_0_minus5_def)

subsection \<open>execute\<close>

lemma run_phase_shape:
  assumes "run_phase cfg w j cr = (j', tr, Inr res)"
  shows "state j' = EXECUTED \<and>
     map fst (verdict res) = [''status'', ''stdout'', ''stdin'', ''expected_output''] \<and>
     map_of (verdict res) ''status'' \<noteq> Some (Str Verdict_COMPILATION) \<and>
     length (run res) = length (stdin j) \<and> compile res = cr"
  using assms
  by (auto simp: run_phase_def adjust_main_def Let_def split: prod.splits sum.splits if_splits
        dest!: evaluate_shape run_in_band_length run_in_parallel_length)

lemma run_phase_status:
  "snd (snd (run_phase cfg w j cr)) = Inr res \<Longrightarrow>
     map_of (verdict res) ''status'' \<noteq> Some (Str Verdict_COMPILATION)"
  using run_phase_shape [of cfg w j cr] by (metis prod.collapse)

lemma execute_compiled:
  assumes "state j = PRIMED" and "compiled (runtime j)"
    and "safe_call cfg w j (path_join (pkgdir (runtime j)) (js ''compile'')) (map name (files j))
           (t_compile (timeouts j)) [] = Inr cr"
  shows "stderr cr \<noteq> [] \<or> signal cr = Some (js ''SIGKILL'') \<Longrightarrow>
           execute cfg w j =
             (j, [Spawn (compile_call j), Await (compile_call j)],
              Inr \<lparr>compile = Some cr, run = [], verdict = compile_verdict cr\<rparr>)"
    and "\<not> (stderr cr \<noteq> [] \<or> signal cr = Some (js ''SIGKILL'')) \<Longrightarrow>
           execute cfg w j = (case run_phase cfg w j (Some cr) of
              (j1, tr, res) \<Rightarrow> (j1, Spawn (compile_call j) # Await (compile_call j) # tr, res))"
  using assms by (simp_all add: execute_def execute_run_def)

lemma execute_not_primed:
  "state j \<noteq> PRIMED \<Longrightarrow> execute cfg w j = (j, [], Inl NotPrimed)"
  by (simp add: execute_def)

lemma prime_result:
  "prime fs j = (j', tr, out) \<Longrightarrow>
     (out = Inr () \<and> j' = j\<lparr>state := PRIMED\<rparr>) \<or> (out = Inl FsError \<and> j' = j)"
  by (auto simp: prime_def split: prod.splits if_splits)

lemma adjust_main_fields [simp]:
  "state (adjust_main j) = state j" "stdin (adjust_main j) = stdin j"
  "args (adjust_main j) = args j" "runtime (adjust_main j) = runtime j"
  by (simp_all add: adjust_main_def)

lemma Spawn_in_serial_trace: "s \<in> set ss \<Longrightarrow> Spawn (run_call j s) \<in> set (serial_trace j ss)"
  by (auto simp: serial_trace_def)

lemma Spawn_in_parallel_trace: "s \<in> set ss \<Longrightarrow> Spawn (run_call j s) \<in> set (parallel_trace j ss)"
  by (auto simp: parallel_trace_def)

lemma run_in_parallel_trace: "fst (run_in_parallel cfg w j) = parallel_trace j (stdin j)"
  by (simp add: run_in_parallel_def parallel_trace_def Let_def)

lemma run_phase_main: "run_phase cfg w j cr = (j', tr, out) \<Longrightarrow> main j' = main (adjust_main j)"
  by (auto simp: run_phase_def Let_def split: prod.splits sum.splits)

lemma run_phase_executed:
  assumes "run_phase cfg w j cr = (j', tr, out)" and "state j = PRIMED" and "state j' = EXECUTED"
  shows "\<forall>s\<in>set (stdin j). Spawn (run_call (adjust_main j) s) \<in> set tr"
proof (cases "language (runtime j) = (js ''java'')")
  case True
  with assms obtain rs where "run_in_band cfg w (adjust_main j) = (tr, Inr rs)"
    by (auto simp: run_phase_def Let_def split: prod.splits sum.splits)
  then have "tr = serial_trace (adjust_main j) (stdin j)"
    using run_in_band_from_trace_resolved [of cfg w "adjust_main j" "stdin j" rs]
    by (simp add: run_in_band_def)
  then show ?thesis by (simp add: Spawn_in_serial_trace)
next
  case False
  with assms have "tr = fst (run_in_parallel cfg w (adjust_main j))"
    by (auto simp: run_phase_def Let_def split: prod.splits sum.splits)
  then show ?thesis by (simp add: run_in_parallel_trace Spawn_in_parallel_trace)
qed

lemma execute_cases [consumes 1, case_names not_compiled rejected short_circuit compiled_run]:
  assumes "state j = PRIMED"
    and "\<not> compiled (runtime j) \<Longrightarrow> execute cfg w j = run_phase cfg w j None \<Longrightarrow> P"
    and "compiled (runtime j) \<Longrightarrow>
         execute cfg w j = (j, compile_trace j, Inl SpawnError) \<Longrightarrow> P"
    and "\<And>c. compiled (runtime j) \<Longrightarrow>
         safe_call cfg w j (path_join (pkgdir (runtime j)) (js ''compile'')) (map name (files j))
           (t_compile (timeouts j)) [] = Inr c \<Longrightarrow>
         stderr c \<noteq> [] \<or> signal c = Some (js ''SIGKILL'') \<Longrightarrow>
         execute cfg w j =
           (j, compile_trace j, Inr \<lparr>compile = Some c, run = [], verdict = compile_verdict c\<rparr>) \<Longrightarrow> P"
    and "\<And>c. compiled (runtime j) \<Longrightarrow>
         safe_call cfg w j (path_join (pkgdir (runtime j)) (js ''compile'')) (map name (files j))
           (t_compile (timeouts j)) [] = Inr c \<Longrightarrow>
         stderr c = [] \<Longrightarrow> signal c \<noteq> Some (js ''SIGKILL'') \<Longrightarrow>
         execute cfg w j = (case run_phase cfg w j (Some c) of
              (j1, tr, res) \<Rightarrow> (j1, compile_trace j @ tr, res)) \<Longrightarrow> P"
  shows P
proof (cases "compiled (runtime j)")
  case False
  then show ?thesis using assms(1,2) by (simp add: execute_def execute_run_def)
next
  case True
  show ?thesis
  proof (cases "safe_call cfg w j (path_join (pkgdir (runtime j)) (js ''compile''))
                  (map name (files j)) (t_compile (timeouts j)) []")
    case (Inl e)
    then have "e = SpawnError" by (rule safe_call_error)
    with Inl True assms(1,3) show ?thesis by (simp add: execute_def compile_trace_def)
  next
    case (Inr c)
    show ?thesis
    proof (cases "stderr c \<noteq> [] \<or> signal c = Some (js ''SIGKILL'')")
      case sc: True
      show ?thesis
        using assms(4) [OF True Inr sc] execute_compiled(1) [OF assms(1) True Inr sc]
        by (simp add: compile_trace_def True)
    next
      case sc: False
      show ?thesis
        using assms(5) [OF True Inr] sc execute_compiled(2) [OF assms(1) True Inr sc]
        by (simp add: compile_trace_def True)
    qed
  qed
qed

lemma run_phase_trace:
  assumes "run_phase cfg w j cr = (j', tr, out)"
  shows "(language (runtime j) = (js ''java'') \<longrightarrow>
            (\<exists>n\<le>length (stdin j). tr = serial_trace (adjust_main j) (take n (stdin j)) \<and>
                (n < length (stdin j) \<longrightarrow> out = Inl SpawnError)))
       \<and> (language (runtime j) \<noteq> (js ''java'') \<longrightarrow> tr = parallel_trace (adjust_main j) (stdin j))"
proof (cases "language (runtime j) = (js ''java'')")
  case True
  obtain n where n: "n \<le> length (stdin j)"
      "fst (run_in_band cfg w (adjust_main j)) = serial_trace (adjust_main j) (take n (stdin j))"
      "n < length (stdin j) \<longrightarrow> snd (run_in_band cfg w (adjust_main j)) = Inl SpawnError"
    using run_in_band_from_trace [of "stdin j" cfg w "adjust_main j"]
    by (auto simp: run_in_band_def)
  from assms True have "tr = fst (run_in_band cfg w (adjust_main j))"
    and "snd (run_in_band cfg w (adjust_main j)) = Inl SpawnError \<longrightarrow> out = Inl SpawnError"
    by (auto simp: run_phase_def Let_def split: prod.splits sum.splits)
  with n True show ?thesis by auto
next
  case False
  with assms have "tr = fst (run_in_parallel cfg w (adjust_main j))"
    by (auto simp: run_phase_def Let_def split: prod.splits sum.splits)
  with False show ?thesis by (simp add: run_in_parallel_trace)
qed

lemma dispatch_results_agree:
  "snd (run_in_band cfg w j) = snd (run_in_parallel cfg w j)"
  by (simp add: run_in_band_def run_in_parallel_def run_in_band_from_all_settled Let_def)

lemma run_in_parallel_nth:
  assumes "snd (run_in_parallel cfg w j) = Inr rs"
  shows "length rs = length (stdin j) \<and>
         (\<forall>i<length rs. safe_call_run cfg w j (stdin j ! i) = Inr (rs ! i))"
proof -
  from assms have a: "all_settled (map (safe_call_run cfg w j) (stdin j)) = Inr rs"
    by (simp add: run_in_parallel_def Let_def)
  then have len: "length rs = length (stdin j)" by (auto dest: all_settled_length)
  moreover have "safe_call_run cfg w j (stdin j ! i) = Inr (rs ! i)" if "i < length rs" for i
    using all_settled_nth [OF a that] that len by simp
  ultimately show ?thesis by blast
qed

subsection \<open>The examples, evaluated\<close>

lemmas example_defs =
  example_config_def example_java_job_def example_python_job_def syntax_error_world_def
  echo_world_def

lemmas model_defs =
  execute_def execute_run_def run_phase_def adjust_main_def run_in_band_def run_in_parallel_def
  safe_call_run_def safe_call_def the_call_def run_call_def compile_call_def drain_def
  empty_buffers_def path_join_def slice_0_minus5_def evaluate_def compile_verdict_def
  run_verdict_def index_def Let_def

lemma execute_syntax_error_example:
  "execute example_config syntax_error_world example_java_job =
     (example_java_job,
      [Spawn (compile_call example_java_job), Await (compile_call example_java_job)],
      Inr \<lparr>compile = Some \<lparr>stdout = [], stderr = (js ''syntax error''), code = Some 1,
                            signal = None, rstdin = []\<rparr>,
           run = [],
           verdict = [(''status'', Str (js ''COMPILATION'')), (''output'', Str (js ''syntax error'')),
                      (''stdin'', Null), (''expectedOutput'', Null)]\<rparr>)"
  by (simp add: example_defs model_defs Verdict_COMPILATION_def)

lemma execute_echo_example:
  "execute example_config echo_world example_java_job =
     (example_java_job\<lparr>main := (js ''Main''), state := EXECUTED\<rparr>,
      [Spawn (compile_call example_java_job), Await (compile_call example_java_job),
       Spawn (run_call (example_java_job\<lparr>main := (js ''Main'')\<rparr>) (js ''1'')),
       Await (run_call (example_java_job\<lparr>main := (js ''Main'')\<rparr>) (js ''1'')),
       Spawn (run_call (example_java_job\<lparr>main := (js ''Main'')\<rparr>) (js ''2'')),
       Await (run_call (example_java_job\<lparr>main := (js ''Main'')\<rparr>) (js ''2''))],
      Inr \<lparr>compile = Some \<lparr>stdout = [], stderr = [], code = Some 0,
                            signal = None, rstdin = []\<rparr>,
           run = [\<lparr>stdout = (js ''1''), stderr = [], code = Some 0, signal = None, rstdin = (js ''1'')\<rparr>,
                  \<lparr>stdout = (js ''2''), stderr = [], code = Some 0, signal = None, rstdin = (js ''2'')\<rparr>],
           verdict = [(''status'', Str (js ''AC'')), (''stdout'', Str (js ''1'')),
                      (''stdin'', Str (js ''1'')), (''expected_output'', Null)]\<rparr>)"
  by (simp add: example_defs model_defs evaluate_from.simps Verdict_AC_def)

lemma trim_hi: "trim (js ''hi'') = (js ''hi'')"
  by (simp add: trim_def is_space_def js_def)

lemma execute_python_example:
  "execute example_config echo_world example_python_job =
     (example_python_job\<lparr>state := EXECUTED\<rparr>,
      [Spawn (run_call example_python_job (js ''hi'')),
       AwaitAll [run_call example_python_job (js ''hi'')]],
      Inr \<lparr>compile = None,
           run = [\<lparr>stdout = (js ''hi''), stderr = [], code = Some 0, signal = None,
                   rstdin = (js ''hi'')\<rparr>],
           verdict = [(''status'', Str (js ''AC'')), (''stdout'', Str (js ''hi'')),
                      (''stdin'', Str (js ''hi'')), (''expected_output'', Null)]\<rparr>)"
  by (simp add: example_defs model_defs evaluate_from.simps Verdict_AC_def trim_hi)

subsection \<open>The compile phase\<close>

text \<open>
  Claim C3. For a primed job whose runtime is compiled and whose compile call resolves
  with the RunResult \<open>cr\<close>: \<open>execute\<close> returns a verdict of status \<open>COMPILATION\<close> if
  and only if \<open>cr.stderr\<close> is not empty or \<open>cr.signal\<close> is \<open>SIGKILL\<close>. In that case
  the verdict carries \<open>cr.stderr\<close>, or the generic message when \<open>cr.stderr\<close> is
  empty, the returned \<open>run\<close> is the empty list, the job is as it was, and the trace
  holds the compile call alone: no run was spawned.
\<close>

theorem execute_compilation_short_circuit:
  assumes "state j = PRIMED" and "compiled (runtime j)"
    and "safe_call cfg w j (path_join (pkgdir (runtime j)) (js ''compile'')) (map name (files j))
           (t_compile (timeouts j)) [] = Inr cr"
  shows "((\<exists>res. snd (snd (execute cfg w j)) = Inr res \<and>
                map_of (verdict res) ''status'' = Some (Str Verdict_COMPILATION))
          \<longleftrightarrow> (stderr cr \<noteq> [] \<or> signal cr = Some (js ''SIGKILL'')))
       \<and> (stderr cr \<noteq> [] \<or> signal cr = Some (js ''SIGKILL'') \<longrightarrow>
            execute cfg w j =
              (j, [Spawn (compile_call j), Await (compile_call j)],
               Inr \<lparr>compile = Some cr, run = [],
                    verdict = [(''status'', Str (js ''COMPILATION'')),
                               (''output'', Str (if stderr cr \<noteq> [] then stderr cr
                                   else (js ''Something went wrong during compilation''))),
                               (''stdin'', Null), (''expectedOutput'', Null)]\<rparr>))"
proof (cases "stderr cr \<noteq> [] \<or> signal cr = Some (js ''SIGKILL'')")
  case True
  then show ?thesis using execute_compiled(1) [OF assms]
    by (simp add: compile_verdict_def Verdict_COMPILATION_def)
next
  case False
  have "\<not> (\<exists>res. snd (snd (execute cfg w j)) = Inr res \<and>
                map_of (verdict res) ''status'' = Some (Str Verdict_COMPILATION))"
    using run_phase_status [of cfg w j "Some cr"] execute_compiled(2) [OF assms False]
    by (auto split: prod.splits)
  then show ?thesis using False by simp
qed

theorem execute_compilation_short_circuit_witness:
  "execute example_config syntax_error_world example_java_job =
     (example_java_job,
      [Spawn (compile_call example_java_job), Await (compile_call example_java_job)],
      Inr \<lparr>compile = Some \<lparr>stdout = [], stderr = (js ''syntax error''), code = Some 1,
                            signal = None, rstdin = []\<rparr>,
           run = [],
           verdict = [(''status'', Str (js ''COMPILATION'')), (''output'', Str (js ''syntax error'')),
                      (''stdin'', Null), (''expectedOutput'', Null)]\<rparr>)"
proof -
  have c: "safe_call example_config syntax_error_world example_java_job
     (path_join (pkgdir (runtime example_java_job)) (js ''compile''))
     (map name (files example_java_job)) (t_compile (timeouts example_java_job)) [] =
     Inr \<lparr>stdout = [], stderr = (js ''syntax error''), code = Some 1, signal = None, rstdin = []\<rparr>"
    by (simp add: example_defs model_defs)
  have p: "state example_java_job = PRIMED" "compiled (runtime example_java_job)"
    by (simp_all add: example_defs)
  show ?thesis
    using execute_compilation_short_circuit [OF p c] by simp
qed

text \<open>
  Claim C9. Let a primed job's \<open>execute\<close> return a result. If its verdict has status
  \<open>COMPILATION\<close> (the short-circuit), the job is unchanged, so its state is still
  Primed, no run was made, and the verdict object has exactly the keys \<open>status\<close>,
  \<open>output\<close>, \<open>stdin\<close>, \<open>expectedOutput\<close>: under \<open>output\<close> the stderr of the
  compile result, which is the \<open>compile\<close> of the result, or the generic message when
  that stderr is empty, and \<open>null\<close> under \<open>stdin\<close> and \<open>expectedOutput\<close>. Any other verdict comes from the run phase:
  the state is Executed and the keys are \<open>status\<close>, \<open>stdout\<close>, \<open>stdin\<close>,
  \<open>expected_output\<close>. Whatever \<open>execute\<close> returns or throws, the state is Executed
  only if a run was spawned for every input.
\<close>

theorem short_circuit_stays_primed:
  assumes "state j = PRIMED" and "execute cfg w j = (j', tr, out)"
  shows "(\<forall>res. out = Inr res \<and> map_of (verdict res) ''status'' = Some (Str Verdict_COMPILATION) \<longrightarrow>
            j' = j \<and> state j' = PRIMED \<and> run res = [] \<and> tr = compile_trace j \<and>
            map fst (verdict res) = [''status'', ''output'', ''stdin'', ''expectedOutput''] \<and>
            (\<exists>cr. compile res = Some cr \<and>
               safe_call cfg w j (path_join (pkgdir (runtime j)) (js ''compile''))
                 (map name (files j)) (t_compile (timeouts j)) [] = Inr cr \<and>
               (stderr cr \<noteq> [] \<or> signal cr = Some (js ''SIGKILL'')) \<and>
               map_of (verdict res) ''output'' =
                 Some (Str (if stderr cr \<noteq> [] then stderr cr
                            else (js ''Something went wrong during compilation'')))) \<and>
            map_of (verdict res) ''stdin'' = Some Null \<and>
            map_of (verdict res) ''expectedOutput'' = Some Null)
       \<and> (\<forall>res. out = Inr res \<and> map_of (verdict res) ''status'' \<noteq> Some (Str Verdict_COMPILATION) \<longrightarrow>
            state j' = EXECUTED \<and> length (run res) = length (stdin j) \<and>
            map fst (verdict res) = [''status'', ''stdout'', ''stdin'', ''expected_output''])
       \<and> (state j' = EXECUTED \<longrightarrow>
            (\<forall>s\<in>set (stdin j). Spawn (run_call (adjust_main j) s) \<in> set tr))"
  using assms(1)
proof (cases rule: execute_cases [where cfg=cfg and w=w])
  case not_compiled
  with assms(2) have rp: "run_phase cfg w j None = (j', tr, out)" by simp
  show ?thesis
    using run_phase_shape [of cfg w j None j' tr] run_phase_executed [OF rp assms(1)] rp
    by auto
next
  case rejected
  with assms show ?thesis by auto
next
  case (short_circuit c)
  with assms show ?thesis
    by (auto simp: compile_verdict_def)
next
  case (compiled_run c)
  with assms(2) obtain tr1 where rp: "run_phase cfg w j (Some c) = (j', tr1, out)"
    and tr: "tr = compile_trace j @ tr1"
    by (auto split: prod.splits)
  show ?thesis
    using run_phase_shape [of cfg w j "Some c" j' tr1] run_phase_executed [OF rp assms(1)] rp tr
    by auto
qed

theorem short_circuit_stays_primed_witness:
  "state example_java_job = PRIMED
   \<and> state (fst (execute example_config syntax_error_world example_java_job)) = PRIMED
   \<and> state (fst (execute example_config echo_world example_java_job)) = EXECUTED
   \<and> (\<exists>res. snd (snd (execute example_config syntax_error_world example_java_job)) = Inr res \<and>
          map_of (verdict res) ''output'' = Some (Str (js ''syntax error'')))"
proof -
  have p: "state example_java_job = PRIMED" by (simp add: example_java_job_def)
  have 3: "\<exists>res. snd (snd (execute example_config syntax_error_world example_java_job)) = Inr res \<and>
          map_of (verdict res) ''output'' = Some (Str (js ''syntax error''))"
    by (simp add: execute_syntax_error_example)
  have s: "map_of [(''status'', Str (js ''COMPILATION'')), (''output'', Str (js ''syntax error'')),
                   (''stdin'', Null), (''expectedOutput'', Null)] ''status''
           = Some (Str Verdict_COMPILATION)"
    by (simp add: Verdict_COMPILATION_def)
  have a: "map_of [(''status'', Str (js ''AC'')), (''stdout'', Str (js ''1'')),
                   (''stdin'', Str (js ''1'')), (''expected_output'', Null)] ''status''
           \<noteq> Some (Str Verdict_COMPILATION)"
    by (simp add: Verdict_COMPILATION_def)
  have 1: "state (fst (execute example_config syntax_error_world example_java_job)) = PRIMED"
    using short_circuit_stays_primed [OF p execute_syntax_error_example] s
    by (simp add: execute_syntax_error_example)
  have 2: "state (fst (execute example_config echo_world example_java_job)) = EXECUTED"
    using short_circuit_stays_primed [OF p execute_echo_example] a
    by (simp add: execute_echo_example)
  from p 1 2 3 show ?thesis by (simp only: simp_thms)
qed

subsection \<open>The run phase\<close>

text \<open>
  Claim C6. Let a primed job's \<open>execute\<close> reach the run phase (the runtime is not
  compiled, or the compile call resolved with an empty stderr and no \<open>SIGKILL\<close>).
  Then \<open>main\<close> has lost its last five characters if the language is \<open>java\<close> and
  the runtime is compiled, and is unchanged otherwise, and every run is called with
  that \<open>main\<close> before the job's arguments. If the language is \<open>java\<close> the runs are
  made one after the other, each awaited before the next is spawned (and a rejected
  one ends the loop); otherwise they are all spawned before \<open>Promise.all\<close> is awaited.
  The children being the same, the two dispatch loops settle alike: when they resolve,
  the list has one RunResult for each input, in the order of \<open>stdin\<close>.
\<close>

theorem java_main_and_dispatch:
  assumes "state j = PRIMED"
    and "compiled (runtime j) \<longrightarrow>
           (\<exists>c. safe_call cfg w j (path_join (pkgdir (runtime j)) (js ''compile''))
                  (map name (files j)) (t_compile (timeouts j)) [] = Inr c \<and>
                stderr c = [] \<and> signal c \<noteq> Some (js ''SIGKILL''))"
    and "execute cfg w j = (j', tr, out)"
  shows "main j' = (if language (runtime j) = (js ''java'') \<and> compiled (runtime j)
                    then take (length (main j) - 5) (main j) else main j)
    \<and> (5 \<le> length (main j) \<longrightarrow>
         (\<exists>sfx. length sfx = 5 \<and> main j = take (length (main j) - 5) (main j) @ sfx))
    \<and> (\<forall>s. c_args (run_call (adjust_main j) s) = main j' # args j)
    \<and> (language (runtime j) = (js ''java'') \<longrightarrow>
         (\<exists>n\<le>length (stdin j).
            tr = compile_trace j @ serial_trace (adjust_main j) (take n (stdin j)) \<and>
            (n < length (stdin j) \<longrightarrow> out = Inl SpawnError)))
    \<and> (language (runtime j) \<noteq> (js ''java'') \<longrightarrow>
         tr = compile_trace j @ parallel_trace (adjust_main j) (stdin j))
    \<and> snd (run_in_band cfg w (adjust_main j)) = snd (run_in_parallel cfg w (adjust_main j))
    \<and> (\<forall>rs. snd (run_in_parallel cfg w (adjust_main j)) = Inr rs \<longrightarrow>
         length rs = length (stdin j) \<and>
         (\<forall>i<length rs. safe_call_run cfg w (adjust_main j) (stdin j ! i) = Inr (rs ! i)))"
proof -
  obtain cr tr1 where rp: "run_phase cfg w j cr = (j', tr1, out)"
    and tr: "tr = compile_trace j @ tr1"
  proof (cases "compiled (runtime j)")
    case False
    with assms(1,3) have "run_phase cfg w j None = (j', tr, out)"
      by (simp add: execute_def execute_run_def)
    with False that [of None tr] show ?thesis by (simp add: compile_trace_def)
  next
    case True
    with assms(2) obtain c where c:
      "safe_call cfg w j (path_join (pkgdir (runtime j)) (js ''compile''))
         (map name (files j)) (t_compile (timeouts j)) [] = Inr c"
      "\<not> (stderr c \<noteq> [] \<or> signal c = Some (js ''SIGKILL''))"
      by auto
    obtain j1 tr1 res where r: "run_phase cfg w j (Some c) = (j1, tr1, res)"
      by (metis prod.collapse)
    with execute_compiled(2) [OF assms(1) True c] assms(3)
    have "j1 = j'" "res = out" "tr = Spawn (compile_call j) # Await (compile_call j) # tr1"
      by simp_all
    with r True that [of "Some c" tr1] show ?thesis by (simp add: compile_trace_def)
  qed
  have m: "main j' = main (adjust_main j)" using rp by (rule run_phase_main)
  show ?thesis
  proof (intro conjI)
    show "main j' = (if language (runtime j) = (js ''java'') \<and> compiled (runtime j)
                    then take (length (main j) - 5) (main j) else main j)"
      by (simp add: m adjust_main_def slice_0_minus5_def)
    show "5 \<le> length (main j) \<longrightarrow>
         (\<exists>sfx. length sfx = 5 \<and> main j = take (length (main j) - 5) (main j) @ sfx)"
      using slice_strips_five [of "main j"] by (simp add: slice_0_minus5_def)
    show "\<forall>s. c_args (run_call (adjust_main j) s) = main j' # args j"
      by (simp add: run_call_def the_call_def m)
    show "language (runtime j) = (js ''java'') \<longrightarrow>
         (\<exists>n\<le>length (stdin j).
            tr = compile_trace j @ serial_trace (adjust_main j) (take n (stdin j)) \<and>
            (n < length (stdin j) \<longrightarrow> out = Inl SpawnError))"
      using run_phase_trace [OF rp] by (simp add: tr)
    show "language (runtime j) \<noteq> (js ''java'') \<longrightarrow>
         tr = compile_trace j @ parallel_trace (adjust_main j) (stdin j)"
      using run_phase_trace [OF rp] by (simp add: tr)
    show "snd (run_in_band cfg w (adjust_main j)) = snd (run_in_parallel cfg w (adjust_main j))"
      by (rule dispatch_results_agree)
    show "\<forall>rs. snd (run_in_parallel cfg w (adjust_main j)) = Inr rs \<longrightarrow>
         length rs = length (stdin j) \<and>
         (\<forall>i<length rs. safe_call_run cfg w (adjust_main j) (stdin j ! i) = Inr (rs ! i))"
      using run_in_parallel_nth [of cfg w "adjust_main j"] by simp
  qed
qed


theorem java_main_and_dispatch_witness:
  "main (fst (execute example_config echo_world example_java_job)) = (js ''Main'')
   \<and> fst (snd (execute example_config echo_world example_python_job)) =
       parallel_trace example_python_job [(js ''hi'')]
   \<and> snd (run_in_band example_config echo_world (adjust_main example_java_job))
       = snd (run_in_parallel example_config echo_world (adjust_main example_java_job))"
proof -
  have c: "compiled (runtime example_java_job) \<longrightarrow>
      (\<exists>c. safe_call example_config echo_world example_java_job
              (path_join (pkgdir (runtime example_java_job)) (js ''compile''))
              (map name (files example_java_job)) (t_compile (timeouts example_java_job)) []
            = Inr c \<and> stderr c = [] \<and> signal c \<noteq> Some (js ''SIGKILL''))"
    by (simp add: example_defs model_defs)
  have c2: "compiled (runtime example_python_job) \<longrightarrow>
      (\<exists>c. safe_call example_config echo_world example_python_job
              (path_join (pkgdir (runtime example_python_job)) (js ''compile''))
              (map name (files example_python_job)) (t_compile (timeouts example_python_job)) []
            = Inr c \<and> stderr c = [] \<and> signal c \<noteq> Some (js ''SIGKILL''))"
    by (simp add: example_python_job_def)
  have p: "state example_java_job = PRIMED" "state example_python_job = PRIMED"
    by (simp_all add: example_defs)
  note J = java_main_and_dispatch [OF p(1) c execute_echo_example]
  note P = java_main_and_dispatch [OF p(2) c2 execute_python_example]
  have 1: "main (fst (execute example_config echo_world example_java_job)) = (js ''Main'')"
    by (simp add: execute_echo_example)
  have py: "language (runtime example_python_job) \<noteq> (js ''java'')"
    "compile_trace example_python_job = []"
    "adjust_main example_python_job = example_python_job"
    "stdin example_python_job = [(js ''hi'')]"
    by (simp_all add: example_python_job_def compile_trace_def adjust_main_def)
  from P py(1) have "[Spawn (run_call example_python_job (js ''hi'')),
        AwaitAll [run_call example_python_job (js ''hi'')]] =
      compile_trace example_python_job @
      parallel_trace (adjust_main example_python_job) (stdin example_python_job)"
    by blast
  then have 2: "fst (snd (execute example_config echo_world example_python_job)) =
       parallel_trace example_python_job [(js ''hi'')]"
    by (simp add: py execute_python_example)
  from J have 3: "snd (run_in_band example_config echo_world (adjust_main example_java_job))
       = snd (run_in_parallel example_config echo_world (adjust_main example_java_job))"
    by blast
  from 1 2 3 show ?thesis by (simp only: simp_thms)
qed

subsection \<open>The state guards\<close>

text \<open>
  Claim C4, at an input where the code does not do what the claim says. \<open>execute\<close>
  checks the state and throws when it is not Primed (\<open>execute_not_primed\<close>); \<open>prime\<close>
  makes no such check. Called on a job that has been executed, with a filesystem
  that accepts every call (as after \<open>cleanup\<close>), it writes the files again and sets
  the state to Primed.
\<close>

theorem prime_from_executed_succeeds:
  "prime (\<lambda>op. True) (example_python_job\<lparr>state := EXECUTED\<rparr>) =
     (example_python_job\<lparr>state := PRIMED\<rparr>,
      [Mkdir (js ''/piston/jobs/u2'') 448, Chown (js ''/piston/jobs/u2'') (Some 1002) (Some 1002),
       WriteFile (js ''/piston/jobs/u2/a.py'') (js ''print(input())''),
       Chown (js ''/piston/jobs/u2/a.py'') (Some 1002) (Some 1002)],
      Inr ())"
  by (simp add: prime_def example_python_job_def file_ops_def path_join_def Let_def)

subsection \<open>The output cap of safe_call\<close>

lemma drain_snoc: "drain m (evs @ [e]) = on_data m (drain m evs) e"
  by (simp add: drain_def)

lemma drain_bound:
  assumes "\<forall>e\<in>set evs. length (snd e) \<le> k"
  shows "length (buf_stdout (drain m evs)) \<le> m + k \<and> length (buf_stderr (drain m evs)) \<le> m + k"
  using assms
proof (induction evs rule: rev_induct)
  case Nil
  show ?case by (simp add: drain_def empty_buffers_def)
next
  case (snoc e evs)
  obtain s d where e: "e = (s, d)" by (cases e)
  from snoc.prems e have d: "length d \<le> k" by simp
  from snoc have IH: "length (buf_stdout (drain m evs)) \<le> m + k"
      "length (buf_stderr (drain m evs)) \<le> m + k" by simp_all
  show ?case
    using IH d by (cases s) (auto simp: drain_snoc e)
qed

lemma drain_prefix:
  "\<exists>no ne. no \<le> length (chunks_of Stdout evs) \<and> ne \<le> length (chunks_of Stderr evs) \<and>
     buf_stdout (drain m evs) = concat (take no (chunks_of Stdout evs)) \<and>
     buf_stderr (drain m evs) = concat (take ne (chunks_of Stderr evs)) \<and>
     (no < length (chunks_of Stdout evs) \<longrightarrow> m < length (buf_stdout (drain m evs))) \<and>
     (ne < length (chunks_of Stderr evs) \<longrightarrow> m < length (buf_stderr (drain m evs))) \<and>
     (0 < no \<longrightarrow> length (concat (take (no - 1) (chunks_of Stdout evs))) \<le> m) \<and>
     (0 < ne \<longrightarrow> length (concat (take (ne - 1) (chunks_of Stderr evs))) \<le> m) \<and>
     kills (drain m evs) =
       (length (chunks_of Stdout evs) - no) + (length (chunks_of Stderr evs) - ne)"
proof (induction evs rule: rev_induct)
  case Nil
  show ?case by (simp add: drain_def empty_buffers_def chunks_of_def)
next
  case (snoc e evs)
  let ?O = "chunks_of Stdout evs" and ?E = "chunks_of Stderr evs" and ?b = "drain m evs"
  from snoc obtain no ne where n: "no \<le> length ?O" "ne \<le> length ?E"
    "buf_stdout ?b = concat (take no ?O)" "buf_stderr ?b = concat (take ne ?E)"
    "no < length ?O \<longrightarrow> m < length (buf_stdout ?b)"
    "ne < length ?E \<longrightarrow> m < length (buf_stderr ?b)"
    "0 < no \<longrightarrow> length (concat (take (no - 1) ?O)) \<le> m"
    "0 < ne \<longrightarrow> length (concat (take (ne - 1) ?E)) \<le> m"
    "kills ?b = (length ?O - no) + (length ?E - ne)"
    by blast
  obtain s d where e: "e = (s, d)" by (cases e)
  show ?case
  proof (cases s)
    case Stdout
    have O: "chunks_of Stdout (evs @ [e]) = ?O @ [d]" "chunks_of Stderr (evs @ [e]) = ?E"
      by (simp_all add: chunks_of_def e Stdout)
    show ?thesis
    proof (cases "m < length (buf_stdout ?b)")
      case True
      then have b: "drain m (evs @ [e]) = ?b\<lparr>kills := Suc (kills ?b)\<rparr>"
        by (simp add: drain_snoc e Stdout)
      show ?thesis
        apply (rule exI [of _ no], rule exI [of _ ne])
        using n True by (simp add: O b Suc_diff_le)
    next
      case False
      with n(5) n(1) have full: "no = length ?O" by simp
      from False have b: "drain m (evs @ [e]) = ?b\<lparr>buf_stdout := buf_stdout ?b @ d\<rparr>"
        by (simp add: drain_snoc e Stdout)
      show ?thesis
        apply (rule exI [of _ "Suc (length ?O)"], rule exI [of _ ne])
        using n False full by (simp add: O b)
    qed
  next
    case Stderr
    have O: "chunks_of Stderr (evs @ [e]) = ?E @ [d]" "chunks_of Stdout (evs @ [e]) = ?O"
      by (simp_all add: chunks_of_def e Stderr)
    show ?thesis
    proof (cases "m < length (buf_stderr ?b)")
      case True
      then have b: "drain m (evs @ [e]) = ?b\<lparr>kills := Suc (kills ?b)\<rparr>"
        by (simp add: drain_snoc e Stderr)
      show ?thesis
        apply (rule exI [of _ no], rule exI [of _ ne])
        using n True by (simp add: O b Suc_diff_le)
    next
      case False
      with n(6) n(2) have full: "ne = length ?E" by simp
      from False have b: "drain m (evs @ [e]) = ?b\<lparr>buf_stderr := buf_stderr ?b @ d\<rparr>"
        by (simp add: drain_snoc e Stderr)
      show ?thesis
        apply (rule exI [of _ no], rule exI [of _ "Suc (length ?E)"])
        using n False full by (simp add: O b)
    qed
  qed
qed

lemma safe_call_buffers:
  "safe_call cfg w j file as t sin = Inr r \<Longrightarrow>
     stdout r = buf_stdout (drain (output_max_size cfg) (chunks (w (the_call j file as t sin)))) \<and>
     stderr r = buf_stderr (drain (output_max_size cfg) (chunks (w (the_call j file as t sin)))) \<and>
     rstdin r = sin"
  by (auto simp: safe_call_def Let_def split: ending.splits)

lemma length_concat_take_le: "length (concat (take n xs)) \<le> length (concat xs)"
proof -
  have "concat xs = concat (take n xs) @ concat (drop n xs)"
    by (metis append_take_drop_id concat_append)
  then show ?thesis by (metis le_add1 length_append)
qed

text \<open>
  Claim C7, as the code has it. Let \<open>safe_call\<close> resolve with \<open>r\<close>, the child having
  delivered the data events \<open>evs\<close>, and let \<open>m\<close> be \<open>output_max_size\<close>. If no chunk is
  longer than \<open>k\<close>, then \<open>stdout\<close> and \<open>stderr\<close> of \<open>r\<close> are at most \<open>m + k\<close> long.
  On each stream the result is the concatenation of a prefix of the chunks: chunks
  are appended as long as the buffer they find is at most \<open>m\<close> long, so the chunk
  that takes the buffer over \<open>m\<close> is kept whole, and every chunk that arrives after
  it is dropped. The handlers send one SIGKILL for each dropped chunk and none
  otherwise: none when the whole output of each stream is at most \<open>m\<close>
  (exactly \<open>m\<close> included), and none when the buffer went over \<open>m\<close> with the last
  chunk of its stream.
\<close>

theorem safe_call_output_cap:
  assumes "safe_call cfg w j file as t sin = Inr r"
    and "evs = chunks (w (the_call j file as t sin))"
    and "m = output_max_size cfg"
  shows "stdout r = buf_stdout (drain m evs) \<and> stderr r = buf_stderr (drain m evs)
    \<and> ((\<forall>e\<in>set evs. length (snd e) \<le> k) \<longrightarrow>
          length (stdout r) \<le> m + k \<and> length (stderr r) \<le> m + k)
    \<and> (\<exists>no ne. no \<le> length (chunks_of Stdout evs) \<and> ne \<le> length (chunks_of Stderr evs) \<and>
          stdout r = concat (take no (chunks_of Stdout evs)) \<and>
          stderr r = concat (take ne (chunks_of Stderr evs)) \<and>
          (no < length (chunks_of Stdout evs) \<longrightarrow> m < length (stdout r)) \<and>
          (ne < length (chunks_of Stderr evs) \<longrightarrow> m < length (stderr r)) \<and>
          (0 < no \<longrightarrow> length (concat (take (no - 1) (chunks_of Stdout evs))) \<le> m) \<and>
          (0 < ne \<longrightarrow> length (concat (take (ne - 1) (chunks_of Stderr evs))) \<le> m) \<and>
          kills (drain m evs) =
            (length (chunks_of Stdout evs) - no) + (length (chunks_of Stderr evs) - ne))
    \<and> (length (concat (chunks_of Stdout evs)) \<le> m \<and>
        length (concat (chunks_of Stderr evs)) \<le> m \<longrightarrow>
          kills (drain m evs) = 0 \<and> stdout r = concat (chunks_of Stdout evs) \<and>
          stderr r = concat (chunks_of Stderr evs))"
proof -
  have bufs: "stdout r = buf_stdout (drain m evs)" "stderr r = buf_stderr (drain m evs)"
    using safe_call_buffers [OF assms(1)] assms(2,3) by simp_all
  have bound: "(\<forall>e\<in>set evs. length (snd e) \<le> k) \<longrightarrow>
          length (stdout r) \<le> m + k \<and> length (stderr r) \<le> m + k"
    using drain_bound [of evs k m] bufs by simp
  obtain no ne where n: "no \<le> length (chunks_of Stdout evs)" "ne \<le> length (chunks_of Stderr evs)"
    "stdout r = concat (take no (chunks_of Stdout evs))"
    "stderr r = concat (take ne (chunks_of Stderr evs))"
    "no < length (chunks_of Stdout evs) \<longrightarrow> m < length (stdout r)"
    "ne < length (chunks_of Stderr evs) \<longrightarrow> m < length (stderr r)"
    "0 < no \<longrightarrow> length (concat (take (no - 1) (chunks_of Stdout evs))) \<le> m"
    "0 < ne \<longrightarrow> length (concat (take (ne - 1) (chunks_of Stderr evs))) \<le> m"
    "kills (drain m evs) =
       (length (chunks_of Stdout evs) - no) + (length (chunks_of Stderr evs) - ne)"
    using drain_prefix [of evs m] unfolding bufs [symmetric] by blast
  have within: "kills (drain m evs) = 0 \<and> stdout r = concat (chunks_of Stdout evs) \<and>
          stderr r = concat (chunks_of Stderr evs)"
    if le: "length (concat (chunks_of Stdout evs)) \<le> m"
           "length (concat (chunks_of Stderr evs)) \<le> m"
  proof -
    have "length (stdout r) \<le> m"
      using n(3) le(1) length_concat_take_le [of no "chunks_of Stdout evs"] by simp
    with n(1,5) have no: "no = length (chunks_of Stdout evs)" by auto
    have "length (stderr r) \<le> m"
      using n(4) le(2) length_concat_take_le [of ne "chunks_of Stderr evs"] by simp
    with n(2,6) have ne: "ne = length (chunks_of Stderr evs)" by auto
    show ?thesis using n(3,4,9) no ne by simp
  qed
  show ?thesis
  proof (intro conjI)
    show "\<exists>no ne. no \<le> length (chunks_of Stdout evs) \<and> ne \<le> length (chunks_of Stderr evs) \<and>
          stdout r = concat (take no (chunks_of Stdout evs)) \<and>
          stderr r = concat (take ne (chunks_of Stderr evs)) \<and>
          (no < length (chunks_of Stdout evs) \<longrightarrow> m < length (stdout r)) \<and>
          (ne < length (chunks_of Stderr evs) \<longrightarrow> m < length (stderr r)) \<and>
          (0 < no \<longrightarrow> length (concat (take (no - 1) (chunks_of Stdout evs))) \<le> m) \<and>
          (0 < ne \<longrightarrow> length (concat (take (ne - 1) (chunks_of Stderr evs))) \<le> m) \<and>
          kills (drain m evs) =
            (length (chunks_of Stdout evs) - no) + (length (chunks_of Stderr evs) - ne)"
      using n by blast
  qed (use bufs bound within in blast)+
qed

lemma chatty_call:
  "safe_call example_config chatty_world example_python_job (js ''/pkg/python/run'') [(js ''a.py'')]
     5000 (js ''hi'') =
   Inr \<lparr>stdout = (js ''abcdefgh''), stderr = [], code = Some 0, signal = None, rstdin = (js ''hi'')\<rparr>"
  by (simp add: safe_call_def chatty_world_def drain_def empty_buffers_def example_config_def)

theorem safe_call_output_cap_witness:
  "length (stdout \<lparr>stdout = (js ''abcdefgh''), stderr = [], code = Some 0, signal = None,
                    rstdin = (js ''hi'')\<rparr>) \<le> output_max_size example_config + 5"
proof -
  note T = safe_call_output_cap [OF chatty_call refl refl, of 5]
  from T have "(\<forall>e\<in>set (chunks (chatty_world
         (the_call example_python_job (js ''/pkg/python/run'') [(js ''a.py'')] 5000 (js ''hi'')))).
       length (snd e) \<le> 5) \<longrightarrow>
     length (stdout \<lparr>stdout = (js ''abcdefgh''), stderr = [], code = Some 0, signal = None,
                     rstdin = (js ''hi'')\<rparr>) \<le> output_max_size example_config + 5"
    by blast
  then show ?thesis by (simp add: chatty_world_def)
qed

text \<open>
  Claim C7 as stated fails here: with \<open>output_max_size = 4\<close>, the chunks \<open>abc\<close> and
  \<open>defgh\<close> leave a buffer of eight characters, over the cap, and no handler has sent
  SIGKILL; the result keeps \<open>abcdefgh\<close>, not the \<open>abc\<close> that was buffered before the cap
  was crossed.
\<close>

theorem cap_crossed_without_kill:
  "safe_call example_config chatty_world example_python_job (js ''/pkg/python/run'') [(js ''a.py'')]
     5000 (js ''hi'') =
   Inr \<lparr>stdout = (js ''abcdefgh''), stderr = [], code = Some 0, signal = None, rstdin = (js ''hi'')\<rparr>
   \<and> output_max_size example_config = 4
   \<and> buf_stdout (drain 4 [(Stdout, (js ''abc''))]) = (js ''abc'')
   \<and> kills (drain 4 [(Stdout, (js ''abc'')), (Stdout, (js ''defgh''))]) = 0"
  by (simp add: safe_call_def chatty_world_def drain_def empty_buffers_def example_config_def)

subsection \<open>The adjudicator\<close>

lemma dropWhile_id: "xs = [] \<or> \<not> P (hd xs) \<Longrightarrow> dropWhile P xs = xs"
  by (cases xs) auto

lemma trim_ends:
  "trim s = [] \<or> (\<not> is_space (hd (trim s)) \<and> \<not> is_space (last (trim s)))"
proof (cases "trim s = []")
  case True
  then show ?thesis by simp
next
  case False
  let ?t = "dropWhile is_space s"
  let ?u = "dropWhile is_space (rev ?t)"
  have u: "trim s = rev ?u" by (simp add: trim_def)
  with False have une: "?u \<noteq> []" by simp
  then have last_ok: "\<not> is_space (hd ?u)" by (rule hd_dropWhile)
  have "rev ?t = takeWhile is_space (rev ?t) @ ?u" by simp
  then have "?t = rev ?u @ rev (takeWhile is_space (rev ?t))"
    by (metis rev_append rev_rev_ident)
  then have "hd ?t = hd (rev ?u)" using une by (metis hd_append2 rev_is_Nil_conv)
  moreover have "?t \<noteq> []" using une by (metis dropWhile.simps(1) rev.simps(1))
  then have "\<not> is_space (hd ?t)" by (rule hd_dropWhile)
  ultimately have "\<not> is_space (hd (trim s))" by (simp add: u)
  moreover have "last (trim s) = hd ?u" using une by (simp add: u last_rev)
  ultimately show ?thesis using last_ok by simp
qed

lemma trim_Nil: "trim [] = []"
  by (simp add: trim_def)

lemma trim_trim [simp]: "trim (trim s) = trim s"
proof (cases "trim s = []")
  case True
  then show ?thesis by (simp only: trim_Nil)
next
  case False
  with trim_ends [of s] have e: "\<not> is_space (hd (trim s))" "\<not> is_space (last (trim s))"
    by simp_all
  have 1: "dropWhile is_space (trim s) = trim s"
    using e(1) by (intro dropWhile_id) simp
  have "hd (rev (trim s)) = last (trim s)" using False by (simp add: hd_rev)
  then have 2: "dropWhile is_space (rev (trim s)) = rev (trim s)"
    using e(2) by (intro dropWhile_id) simp
  have "trim (trim s) = rev (dropWhile is_space (rev (dropWhile is_space (trim s))))"
    by (simp add: trim_def)
  also have "\<dots> = trim s" by (simp only: 1 2 rev_rev_ident)
  finally show ?thesis .
qed

lemma trim_examples:
  "trim (js ''hi'') = (js ''hi'')" "trim (js ''hi\<newline>'') = (js ''hi'')" "trim (js ''1\<newline>'') = (js ''1'')"
  "trim (js ''1'') = (js ''1'')" "trim (js ''2'') = (js ''2'')"
  by (simp_all add: trim_def is_space_def js_def)

lemma nth_trimmed_at:
  "k < length rs \<Longrightarrow>
   trimmed_at i rs ! k = (if k = i then (rs ! k)\<lparr>stdout := trim (stdout (rs ! k))\<rparr> else rs ! k)"
  by (simp add: trimmed_at_def nth_list_update)

text \<open>
  Claim C1, at an input where the code does not do what the claim says. Of two test
  cases the first printed \<open>1\<close>, with nothing on stderr and no signal, and its
  expected output is \<open>1\<close> followed by a line feed: trimmed, the two are equal, so
  the case is accepting. The second wrote \<open>boom\<close> to stderr: the first verdict
  that is not accepting is RUNTIME for index 1. \<open>evaluate\<close> returns WA for index 0,
  because it compares the trimmed stdout with \<open>this.expected_output[0]\<close>, which is
  not trimmed (line 282 of the source).
\<close>

theorem evaluate_wa_before_runtime:
  "snd (evaluate two_case_job two_case_run None) =
     Inr \<lparr>compile = None, run = two_case_run,
          verdict = [(''status'', Str (js ''WA'')), (''stdout'', Str (js ''1'')),
                     (''stdin'', Str (js ''a'')), (''expected_output'', Str (js ''1''))]\<rparr>
   \<and> stderr (two_case_run ! 0) = [] \<and> signal (two_case_run ! 0) = None
   \<and> trim (stdout (two_case_run ! 0)) = trim (js ''1\<newline>'')
   \<and> stderr (two_case_run ! 1) = js ''boom''"
  by (simp add: evaluate_def evaluate_from.simps two_case_job_def two_case_run_def
        example_python_job_def index_def Let_def trim_examples run_verdict_def Verdict_WA_def)

text \<open>
  Claim C2, at an input where the code does not do what the claim says. The run
  printed \<open>hi\<close>, the expected output is \<open>hi\<close> followed by a line feed: the two
  trimmed strings are equal, so the claim has no WA here. \<open>evaluate\<close> trims the
  expected output into its local variable but compares the trimmed stdout with
  \<open>this.expected_output[i]\<close>, which is not trimmed, and returns WA, whose
  \<open>stdout\<close> and \<open>expected_output\<close> are the same string.
\<close>

theorem evaluate_wa_on_untrimmed_expected:
  "snd (evaluate (example_python_job\<lparr>expected_output := Some [(js ''hi\<newline>'')]\<rparr>)
          [hi_run] None)
     = Inr \<lparr>compile = None, run = [hi_run],
            verdict = [(''status'', Str (js ''WA'')), (''stdout'', Str (js ''hi'')),
                       (''stdin'', Str (js ''hi'')), (''expected_output'', Str (js ''hi''))]\<rparr>
   \<and> trim (stdout hi_run) = trim (js ''hi\<newline>'')"
  by (simp add: evaluate_def evaluate_from.simps example_python_job_def hi_run_def index_def
        Let_def trim_examples run_verdict_def Verdict_WA_def)

lemma trimmed_at_fixed:
  "i < length rs \<Longrightarrow> trim (stdout (rs ! i)) = stdout (rs ! i) \<Longrightarrow> trimmed_at i rs = rs"
  by (simp add: trimmed_at_def)

lemma evaluate_from_frame:
  "length (fst (evaluate_from j c i rs)) = length rs \<and>
   (\<forall>k<length rs. fst (evaluate_from j c i rs) ! k = rs ! k \<or>
        fst (evaluate_from j c i rs) ! k = (rs ! k)\<lparr>stdout := trim (stdout (rs ! k))\<rparr>) \<and>
   (\<forall>k<i. k < length rs \<longrightarrow> fst (evaluate_from j c i rs) ! k = rs ! k) \<and>
   (expected_output j = None \<longrightarrow> fst (evaluate_from j c i rs) = rs) \<and>
   (\<forall>res. snd (evaluate_from j c i rs) = Inr res \<longrightarrow> run res = fst (evaluate_from j c i rs))"
proof (induction "length rs - i" arbitrary: i rs rule: less_induct)
  case less
  show ?case
  proof (cases rule: evaluate_from_cases [where i=i and rs=rs and j=j])
    case finished
    then show ?thesis by (simp add: evaluate_from_end)
  next
    case runtime
    then show ?thesis by (simp add: evaluate_from_runtime)
  next
    case tle
    then show ?thesis by (simp add: evaluate_from_tle)
  next
    case noexp
    then have "length rs - Suc i < length rs - i" by simp
    from less.hyps [OF this] noexp show ?thesis
      by (simp add: evaluate_from_noexp less_Suc_eq)
  next
    case (throws eo)
    then show ?thesis
      by (auto simp: evaluate_from_throws nth_trimmed_at)
  next
    case (wa eo)
    then show ?thesis
      by (auto simp: evaluate_from_wa nth_trimmed_at)
  next
    case (pass eo)
    let ?rs1 = "trimmed_at i rs"
    let ?R = "evaluate_from j c (Suc i) ?rs1"
    have ev: "evaluate_from j c i rs = ?R" using pass by (simp add: evaluate_from_pass)
    have "length ?rs1 - Suc i < length rs - i" using pass by simp
    from less.hyps [OF this] have IH:
      "length (fst ?R) = length rs"
      "\<forall>k<length rs. fst ?R ! k = ?rs1 ! k \<or>
           fst ?R ! k = (?rs1 ! k)\<lparr>stdout := trim (stdout (?rs1 ! k))\<rparr>"
      "\<forall>k<Suc i. k < length rs \<longrightarrow> fst ?R ! k = ?rs1 ! k"
      "\<forall>res. snd ?R = Inr res \<longrightarrow> run res = fst ?R"
      by simp_all
    have a: "\<forall>k<length rs. fst ?R ! k = rs ! k \<or>
        fst ?R ! k = (rs ! k)\<lparr>stdout := trim (stdout (rs ! k))\<rparr>"
    proof (intro allI impI)
      fix k assume k: "k < length rs"
      show "fst ?R ! k = rs ! k \<or>
        fst ?R ! k = (rs ! k)\<lparr>stdout := trim (stdout (rs ! k))\<rparr>"
      proof (cases "k = i")
        case True
        then have "?rs1 ! k = (rs ! k)\<lparr>stdout := trim (stdout (rs ! k))\<rparr>"
          using k by (simp add: nth_trimmed_at)
        moreover from this have "(?rs1 ! k)\<lparr>stdout := trim (stdout (?rs1 ! k))\<rparr> = ?rs1 ! k"
          by simp
        ultimately show ?thesis using IH(2) k by metis
      next
        case False
        then have "?rs1 ! k = rs ! k" using k by (simp add: nth_trimmed_at)
        then show ?thesis using IH(2) k by metis
      qed
    qed
    have b: "\<forall>k<i. k < length rs \<longrightarrow> fst ?R ! k = rs ! k"
      using IH(3) by (auto simp: nth_trimmed_at)
    show ?thesis
      unfolding ev using IH(1,4) a b pass(4) by simp
  qed
qed

lemma evaluate_from_again:
  "evaluate_from j c i (fst (evaluate_from j c i rs)) = evaluate_from j c i rs"
proof (induction "length rs - i" arbitrary: i rs rule: less_induct)
  case less
  show ?case
  proof (cases rule: evaluate_from_cases [where i=i and rs=rs and j=j])
    case finished
    then show ?thesis by (simp add: evaluate_from_end)
  next
    case runtime
    then show ?thesis by (simp add: evaluate_from_runtime)
  next
    case tle
    then show ?thesis by (simp add: evaluate_from_tle)
  next
    case noexp
    let ?R = "evaluate_from j c (Suc i) rs"
    have ev: "evaluate_from j c i rs = ?R" using noexp by (simp add: evaluate_from_noexp)
    have same: "fst ?R ! i = rs ! i" "length (fst ?R) = length rs"
      using evaluate_from_frame [of j c "Suc i" rs] noexp(1) by simp_all
    have "evaluate_from j c i (fst ?R) = evaluate_from j c (Suc i) (fst ?R)"
      using noexp same by (intro evaluate_from_noexp) simp_all
    moreover have "length rs - Suc i < length rs - i" using noexp by simp
    ultimately show ?thesis using less.hyps [of rs "Suc i"] by (simp add: ev)
  next
    case (throws eo)
    then have "evaluate_from j c i (trimmed_at i rs) =
        (trimmed_at i (trimmed_at i rs), Inl TypeError)"
      by (intro evaluate_from_throws) (simp_all add: nth_trimmed_at)
    moreover have "trimmed_at i (trimmed_at i rs) = trimmed_at i rs"
      using throws(1) by (intro trimmed_at_fixed) (simp_all add: nth_trimmed_at)
    ultimately show ?thesis using throws by (simp add: evaluate_from_throws)
  next
    case (wa eo)
    have fixed: "trimmed_at i (trimmed_at i rs) = trimmed_at i rs"
      using wa(1) by (intro trimmed_at_fixed) (simp_all add: nth_trimmed_at)
    have "evaluate_from j c i (trimmed_at i rs) =
        (trimmed_at i (trimmed_at i rs),
         Inr \<lparr>compile = c, run = trimmed_at i (trimmed_at i rs),
              verdict = run_verdict Verdict_WA (Str (trim (stdout (trimmed_at i rs ! i))))
                (index (stdin j) i) (Str (trim (eo ! i)))\<rparr>)"
      using wa by (intro evaluate_from_wa) (simp_all add: nth_trimmed_at)
    then show ?thesis using wa by (simp add: evaluate_from_wa fixed nth_trimmed_at)
  next
    case (pass eo)
    let ?rs1 = "trimmed_at i rs"
    let ?R = "evaluate_from j c (Suc i) ?rs1"
    have ev: "evaluate_from j c i rs = ?R" using pass by (simp add: evaluate_from_pass)
    have same: "fst ?R ! i = ?rs1 ! i" "length (fst ?R) = length rs"
      using evaluate_from_frame [of j c "Suc i" ?rs1] pass(1) by simp_all
    then have at_i: "fst ?R ! i = (rs ! i)\<lparr>stdout := trim (stdout (rs ! i))\<rparr>"
      using pass(1) by (simp add: nth_trimmed_at)
    have tr: "trim (eo ! i) = eo ! i" using pass(6) trim_trim by metis
    have "evaluate_from j c i (fst ?R) = evaluate_from j c (Suc i) (trimmed_at i (fst ?R))"
      using pass same(2) tr by (intro evaluate_from_pass) (simp_all add: at_i)
    moreover have "trimmed_at i (fst ?R) = fst ?R"
      using pass(1) same(2) by (intro trimmed_at_fixed) (simp_all add: at_i)
    moreover have "length ?rs1 - Suc i < length rs - i" using pass by simp
    ultimately show ?thesis using less.hyps [of ?rs1 "Suc i"] by (simp add: ev)
  qed
qed

lemma loop_continues_cong:
  "rs' ! i = rs ! i \<Longrightarrow> loop_continues j rs' i = loop_continues j rs i"
  by (simp add: loop_continues_def split: option.splits)

lemma evaluate_from_exact:
  "\<forall>k<length rs. fst (evaluate_from j c i rs) ! k =
     (if i \<le> k \<and> expected_output j \<noteq> None \<and> (\<forall>m. i \<le> m \<and> m < k \<longrightarrow> loop_continues j rs m) \<and>
         stderr (rs ! k) = [] \<and> signal (rs ! k) \<noteq> Some (js ''SIGKILL'')
      then (rs ! k)\<lparr>stdout := trim (stdout (rs ! k))\<rparr> else rs ! k)"
proof (induction "length rs - i" arbitrary: i rs rule: less_induct)
  case less
  show ?case
  proof (cases rule: evaluate_from_cases [where i=i and rs=rs and j=j])
    case finished
    then show ?thesis by (simp add: evaluate_from_end)
  next
    case runtime
    then have stop: "\<not> loop_continues j rs i" by (simp add: loop_continues_def)
    show ?thesis
    proof (intro allI impI)
      fix k assume "k < length rs"
      show "fst (evaluate_from j c i rs) ! k =
        (if i \<le> k \<and> expected_output j \<noteq> None \<and>
            (\<forall>m. i \<le> m \<and> m < k \<longrightarrow> loop_continues j rs m) \<and>
            stderr (rs ! k) = [] \<and> signal (rs ! k) \<noteq> Some (js ''SIGKILL'')
         then (rs ! k)\<lparr>stdout := trim (stdout (rs ! k))\<rparr> else rs ! k)"
      proof (cases "k = i")
        case True
        with runtime show ?thesis by (simp add: evaluate_from_runtime)
      next
        case False
        then have "\<not> (i \<le> k \<and> (\<forall>m. i \<le> m \<and> m < k \<longrightarrow> loop_continues j rs m))"
          using stop by (metis le_neq_implies_less order_refl)
        with runtime show ?thesis by (auto simp: evaluate_from_runtime)
      qed
    qed
  next
    case tle
    then have stop: "\<not> loop_continues j rs i" by (simp add: loop_continues_def)
    show ?thesis
    proof (intro allI impI)
      fix k assume "k < length rs"
      show "fst (evaluate_from j c i rs) ! k =
        (if i \<le> k \<and> expected_output j \<noteq> None \<and>
            (\<forall>m. i \<le> m \<and> m < k \<longrightarrow> loop_continues j rs m) \<and>
            stderr (rs ! k) = [] \<and> signal (rs ! k) \<noteq> Some (js ''SIGKILL'')
         then (rs ! k)\<lparr>stdout := trim (stdout (rs ! k))\<rparr> else rs ! k)"
      proof (cases "k = i")
        case True
        with tle show ?thesis by (simp add: evaluate_from_tle)
      next
        case False
        then have "\<not> (i \<le> k \<and> (\<forall>m. i \<le> m \<and> m < k \<longrightarrow> loop_continues j rs m))"
          using stop by (metis le_neq_implies_less order_refl)
        with tle show ?thesis by (auto simp: evaluate_from_tle)
      qed
    qed
  next
    case noexp
    then have "length rs - Suc i < length rs - i" by simp
    from less.hyps [OF this] noexp show ?thesis
      by (simp add: evaluate_from_noexp)
  next
    case (throws eo)
    then have stop: "\<not> loop_continues j rs i" by (simp add: loop_continues_def)
    show ?thesis
    proof (intro allI impI)
      fix k assume k: "k < length rs"
      show "fst (evaluate_from j c i rs) ! k =
        (if i \<le> k \<and> expected_output j \<noteq> None \<and>
            (\<forall>m. i \<le> m \<and> m < k \<longrightarrow> loop_continues j rs m) \<and>
            stderr (rs ! k) = [] \<and> signal (rs ! k) \<noteq> Some (js ''SIGKILL'')
         then (rs ! k)\<lparr>stdout := trim (stdout (rs ! k))\<rparr> else rs ! k)"
      proof (cases "k = i")
        case True
        with throws k show ?thesis by (auto simp: evaluate_from_throws nth_trimmed_at)
      next
        case False
        then have "\<not> (i \<le> k \<and> (\<forall>m. i \<le> m \<and> m < k \<longrightarrow> loop_continues j rs m))"
          using stop by (metis le_neq_implies_less order_refl)
        with throws k False show ?thesis by (auto simp: evaluate_from_throws nth_trimmed_at)
      qed
    qed
  next
    case (wa eo)
    then have stop: "\<not> loop_continues j rs i" by (simp add: loop_continues_def)
    show ?thesis
    proof (intro allI impI)
      fix k assume k: "k < length rs"
      show "fst (evaluate_from j c i rs) ! k =
        (if i \<le> k \<and> expected_output j \<noteq> None \<and>
            (\<forall>m. i \<le> m \<and> m < k \<longrightarrow> loop_continues j rs m) \<and>
            stderr (rs ! k) = [] \<and> signal (rs ! k) \<noteq> Some (js ''SIGKILL'')
         then (rs ! k)\<lparr>stdout := trim (stdout (rs ! k))\<rparr> else rs ! k)"
      proof (cases "k = i")
        case True
        with wa k show ?thesis by (auto simp: evaluate_from_wa nth_trimmed_at)
      next
        case False
        then have "\<not> (i \<le> k \<and> (\<forall>m. i \<le> m \<and> m < k \<longrightarrow> loop_continues j rs m))"
          using stop by (metis le_neq_implies_less order_refl)
        with wa k False show ?thesis by (auto simp: evaluate_from_wa nth_trimmed_at)
      qed
    qed
  next
    case (pass eo)
    let ?rs1 = "trimmed_at i rs"
    let ?R = "evaluate_from j c (Suc i) ?rs1"
    have ev: "evaluate_from j c i rs = ?R" using pass by (simp add: evaluate_from_pass)
    have go: "loop_continues j rs i" using pass by (simp add: loop_continues_def)
    have "length ?rs1 - Suc i < length rs - i" using pass by simp
    from less.hyps [OF this] have IH: "\<forall>k<length rs. fst ?R ! k =
       (if Suc i \<le> k \<and> expected_output j \<noteq> None \<and>
           (\<forall>m. Suc i \<le> m \<and> m < k \<longrightarrow> loop_continues j ?rs1 m) \<and>
           stderr (?rs1 ! k) = [] \<and> signal (?rs1 ! k) \<noteq> Some (js ''SIGKILL'')
        then (?rs1 ! k)\<lparr>stdout := trim (stdout (?rs1 ! k))\<rparr> else ?rs1 ! k)"
      by simp
    show ?thesis
    proof (intro allI impI)
      fix k assume k: "k < length rs"
      show "fst (evaluate_from j c i rs) ! k =
        (if i \<le> k \<and> expected_output j \<noteq> None \<and>
            (\<forall>m. i \<le> m \<and> m < k \<longrightarrow> loop_continues j rs m) \<and>
            stderr (rs ! k) = [] \<and> signal (rs ! k) \<noteq> Some (js ''SIGKILL'')
         then (rs ! k)\<lparr>stdout := trim (stdout (rs ! k))\<rparr> else rs ! k)"
      proof (cases "Suc i \<le> k")
        case False
        with IH k have "fst ?R ! k = ?rs1 ! k" by simp
        with False k pass show ?thesis
          by (cases "k = i") (auto simp: ev nth_trimmed_at)
      next
        case True
        then have ki: "k \<noteq> i" "i \<le> k" by simp_all
        have same: "?rs1 ! k = rs ! k" using k ki by (simp add: nth_trimmed_at)
        have "(\<forall>m. Suc i \<le> m \<and> m < k \<longrightarrow> loop_continues j ?rs1 m) \<longleftrightarrow>
              (\<forall>m. i \<le> m \<and> m < k \<longrightarrow> loop_continues j rs m)"
        proof -
          have eq: "loop_continues j ?rs1 m = loop_continues j rs m" if "Suc i \<le> m" "m < k" for m
            using that k by (intro loop_continues_cong) (simp add: nth_trimmed_at)
          have split: "i \<le> m \<longleftrightarrow> m = i \<or> Suc i \<le> m" for m by auto
          show ?thesis
          proof
            assume a: "\<forall>m. Suc i \<le> m \<and> m < k \<longrightarrow> loop_continues j ?rs1 m"
            show "\<forall>m. i \<le> m \<and> m < k \<longrightarrow> loop_continues j rs m"
            proof (intro allI impI)
              fix m assume m: "i \<le> m \<and> m < k"
              show "loop_continues j rs m"
              proof (cases "m = i")
                case True
                with go show ?thesis by simp
              next
                case False
                with m have "Suc i \<le> m" "m < k" by simp_all
                with a eq [of m] show ?thesis by simp
              qed
            qed
          next
            assume a: "\<forall>m. i \<le> m \<and> m < k \<longrightarrow> loop_continues j rs m"
            show "\<forall>m. Suc i \<le> m \<and> m < k \<longrightarrow> loop_continues j ?rs1 m"
            proof (intro allI impI)
              fix m assume m: "Suc i \<le> m \<and> m < k"
              then have "loop_continues j rs m" using a by simp
              with m eq [of m] show "loop_continues j ?rs1 m" by simp
            qed
          qed
        qed
        with IH k True same pass(4) show ?thesis by (auto simp: ev ki)
      qed
    qed
  qed
qed

lemma evaluate_from_reads:
  assumes "stdin j' = stdin j" and "expected_output j' = expected_output j"
  shows "evaluate_from j' c i rs = evaluate_from j c i rs"
proof (induction "length rs - i" arbitrary: i rs rule: less_induct)
  case less
  show ?case
  proof (cases rule: evaluate_from_cases [where i=i and rs=rs and j=j])
    case finished
    then show ?thesis by (simp add: evaluate_from_end assms)
  next
    case runtime
    then show ?thesis by (simp add: evaluate_from_runtime assms)
  next
    case tle
    then show ?thesis by (simp add: evaluate_from_tle assms)
  next
    case noexp
    then have "length rs - Suc i < length rs - i" by simp
    from less.hyps [OF this] noexp show ?thesis
      by (simp add: evaluate_from_noexp assms)
  next
    case (throws eo)
    then show ?thesis
      using evaluate_from_throws [of i rs j' eo c] evaluate_from_throws [of i rs j eo c]
      by (simp add: assms)
  next
    case (wa eo)
    then show ?thesis
      using evaluate_from_wa [of i rs j' eo c] evaluate_from_wa [of i rs j eo c]
      by (simp add: assms)
  next
    case (pass eo)
    then have "length (trimmed_at i rs) - Suc i < length rs - i" by simp
    from less.hyps [OF this] pass show ?thesis
      using evaluate_from_pass [of i rs j' eo c] evaluate_from_pass [of i rs j eo c]
      by (simp add: assms)
  qed
qed

text \<open>
  Claim C5, as the code has it. \<open>evaluate\<close> is a function of \<open>run\<close>, \<open>compile\<close> and,
  of the job, of \<open>stdin\<close> and \<open>expected_output\<close> alone: two jobs that agree on these
  give the same result. It assigns to no field of the job (the job is an argument that
  is read; nothing of it is returned), but it assigns to \<open>run[i].stdout\<close>: after the
  call the array has the same length, and the RunResult at index \<open>k\<close> has its stdout
  replaced by the trimmed stdout, and nothing else changed, exactly when expected
  outputs were given, the loop went on from every index before \<open>k\<close>, and neither
  the RUNTIME nor the TLE test applies at \<open>k\<close>; every other RunResult is as it was.
  The returned \<open>run\<close> is that array. Calling \<open>evaluate\<close> again on the array as the
  first call left it returns the same result and changes nothing more.
\<close>

theorem evaluate_frame:
  "length (fst (evaluate j rs c)) = length rs
   \<and> (\<forall>k<length rs. fst (evaluate j rs c) ! k =
         (if expected_output j \<noteq> None \<and> (\<forall>m<k. loop_continues j rs m) \<and>
             stderr (rs ! k) = [] \<and> signal (rs ! k) \<noteq> Some (js ''SIGKILL'')
          then (rs ! k)\<lparr>stdout := trim (stdout (rs ! k))\<rparr> else rs ! k))
   \<and> (\<forall>res. snd (evaluate j rs c) = Inr res \<longrightarrow> run res = fst (evaluate j rs c))
   \<and> (\<forall>j'. stdin j' = stdin j \<and> expected_output j' = expected_output j \<longrightarrow>
          evaluate j' rs c = evaluate j rs c)
   \<and> evaluate j (fst (evaluate j rs c)) c = evaluate j rs c"
proof (intro conjI)
  show "length (fst (evaluate j rs c)) = length rs"
    using evaluate_from_frame [of j c 0 rs] by (simp add: evaluate_def)
  show "\<forall>k<length rs. fst (evaluate j rs c) ! k =
         (if expected_output j \<noteq> None \<and> (\<forall>m<k. loop_continues j rs m) \<and>
             stderr (rs ! k) = [] \<and> signal (rs ! k) \<noteq> Some (js ''SIGKILL'')
          then (rs ! k)\<lparr>stdout := trim (stdout (rs ! k))\<rparr> else rs ! k)"
    using evaluate_from_exact [of rs j c 0] by (simp add: evaluate_def)
  show "\<forall>res. snd (evaluate j rs c) = Inr res \<longrightarrow> run res = fst (evaluate j rs c)"
    using evaluate_from_frame [of j c 0 rs] by (simp add: evaluate_def)
  show "\<forall>j'. stdin j' = stdin j \<and> expected_output j' = expected_output j \<longrightarrow>
          evaluate j' rs c = evaluate j rs c"
    unfolding evaluate_def by (intro allI impI evaluate_from_reads) simp_all
  show "evaluate j (fst (evaluate j rs c)) c = evaluate j rs c"
    using evaluate_from_again [of j c 0 rs] by (simp add: evaluate_def)
qed

theorem evaluate_frame_witness:
  "fst (evaluate example_python_job [hi_newline_run] None) ! 0 = hi_run
   \<and> evaluate (example_python_job\<lparr>state := EXECUTED\<rparr>) [hi_newline_run] None =
       evaluate example_python_job [hi_newline_run] None"
proof -
  note T = evaluate_frame [of example_python_job "[hi_newline_run]" None]
  note A = T [THEN conjunct2, THEN conjunct1, rule_format, of 0]
  note B = T [THEN conjunct2, THEN conjunct2, THEN conjunct2, THEN conjunct1, rule_format,
              of "example_python_job\<lparr>state := EXECUTED\<rparr>"]
  have 1: "fst (evaluate example_python_job [hi_newline_run] None) ! 0 = hi_run"
    using A by (simp add: example_python_job_def hi_newline_run_def hi_run_def trim_examples)
  have 2: "evaluate (example_python_job\<lparr>state := EXECUTED\<rparr>) [hi_newline_run] None =
       evaluate example_python_job [hi_newline_run] None"
    using B by simp
  from 1 2 show ?thesis by (simp only: simp_thms)
qed

text \<open>
  Claim C5 as stated fails here: the run printed \<open>hi\<close> and a line feed, the expected
  output is \<open>hi\<close>; after the call the RunResult in the array holds \<open>hi\<close>.
\<close>

theorem evaluate_changes_run:
  "fst (evaluate example_python_job [hi_newline_run] None) \<noteq> [hi_newline_run]"
  by (simp add: evaluate_def evaluate_from.simps example_python_job_def hi_newline_run_def
        index_def trim_examples Let_def)

end
